theory Spec2Isabelle
  imports Main
begin

section \<open>JavaScript values\<close>

text \<open>
  The TypeScript interfaces of \<^verbatim>\<open>setup-oauth.ts\<close> (\<^verbatim>\<open>StoredCredentials\<close>,
  \<^verbatim>\<open>RefreshTokenResponse\<close>) are erased at run time: \<^verbatim>\<open>JSON.parse\<close> and
  \<^verbatim>\<open>response.json()\<close> return whatever the text denotes. The values the program handles
  are therefore modelled untyped. Numbers are the integers (Unix timestamps and second
  counts) together with \<^verbatim>\<open>NaN\<close>, which \<^verbatim>\<open>parseInt\<close> and arithmetic on \<^verbatim>\<open>undefined\<close>
  produce, and the two infinities. Arithmetic on integers is exact: numbers with a
  fraction, and the rounding of doubles beyond \<open>2^53\<close> (with it the overflow of a finite
  computation to an infinity), are outside the model. Strings are byte strings (the UTF-8 form in which the
  file holds them). An object is the list of its own properties in insertion order (keys
  that are array indices, which JavaScript enumerates first, are not treated apart).
\<close>

datatype jsnum = Num int | NaN | PosInf | NegInf

text \<open>\<^verbatim>\<open>Number.isFinite\<close>.\<close>

fun is_finite :: "jsnum \<Rightarrow> bool" where
  "is_finite (Num i) = True"
| "is_finite NaN = False"
| "is_finite PosInf = False"
| "is_finite NegInf = False"

datatype jsval =
    JUndefined
  | JNull
  | JBool bool
  | JNumber jsnum
  | JString string
  | JArray "jsval list"
  | JObject "(string \<times> jsval) list"

text \<open>Thrown values. Everything this program throws or receives is an \<^verbatim>\<open>Error\<close>
  instance, so \<^verbatim>\<open>error instanceof Error ? error.message : String(error)\<close> is \<open>message\<close>.\<close>

datatype js_error =
    Error string
  | TypeError string
  | SyntaxError string
  | SystemError string

fun message :: "js_error \<Rightarrow> string" where
  "message (Error m) = m"
| "message (TypeError m) = m"
| "message (SyntaxError m) = m"
| "message (SystemError m) = m"

subsection \<open>Decimal numerals\<close>

definition digit_char :: "int \<Rightarrow> char" where
  "digit_char d = char_of (48 + d)"

definition is_digit :: "char \<Rightarrow> bool" where
  "is_digit c = (48 \<le> (of_char c :: int) \<and> (of_char c :: int) \<le> 57)"

definition digit_val :: "char \<Rightarrow> int" where
  "digit_val c = of_char c - 48"

text \<open>The decimal digits of a number that is not negative.\<close>

function show_digits :: "int \<Rightarrow> string" where
  "show_digits n =
     (if n < 10 then [digit_char n] else show_digits (n div 10) @ [digit_char (n mod 10)])"
  by pat_completeness auto
termination
  by (relation "measure nat") auto

declare show_digits.simps [simp del]

definition dec_val :: "string \<Rightarrow> int" where
  "dec_val ds = foldl (\<lambda>a c. 10 * a + digit_val c) 0 ds"

text \<open>Digits in the bases up to 16.\<close>

definition hex_val :: "char \<Rightarrow> int option" where
  "hex_val c =
     (let n = (of_char c :: int)
      in if 48 \<le> n \<and> n \<le> 57 then Some (n - 48)
         else if 97 \<le> n \<and> n \<le> 102 then Some (n - 87)
         else if 65 \<le> n \<and> n \<le> 70 then Some (n - 55)
         else None)"

definition digits_in_base :: "int \<Rightarrow> string \<Rightarrow> bool" where
  "digits_in_base b ds =
     (ds \<noteq> [] \<and> list_all (\<lambda>c. case hex_val c of None \<Rightarrow> False | Some d \<Rightarrow> d < b) ds)"

definition value_in_base :: "int \<Rightarrow> string \<Rightarrow> int" where
  "value_in_base b ds =
     foldl (\<lambda>a c. b * a + (case hex_val c of None \<Rightarrow> 0 | Some d \<Rightarrow> d)) 0 ds"

definition show_int :: "int \<Rightarrow> string" where
  "show_int i = (if i < 0 then CHR ''-'' # show_digits (- i) else show_digits i)"

fun num_to_string :: "jsnum \<Rightarrow> string" where
  "num_to_string (Num i) = show_int i"
| "num_to_string NaN = ''NaN''"
| "num_to_string PosInf = ''Infinity''"
| "num_to_string NegInf = ''-Infinity''"

subsection \<open>Coercions and operators\<close>

text \<open>\<^verbatim>\<open>!credentials\<close>: the falsy values.\<close>

fun truthy :: "jsval \<Rightarrow> bool" where
  "truthy JUndefined = False"
| "truthy JNull = False"
| "truthy (JBool b) = b"
| "truthy (JNumber (Num i)) = (i \<noteq> 0)"
| "truthy (JNumber NaN) = False"
| "truthy (JNumber PosInf) = True"
| "truthy (JNumber NegInf) = True"
| "truthy (JString s) = (s \<noteq> [])"
| "truthy (JArray xs) = True"
| "truthy (JObject ps) = True"

text \<open>White space of the language (\<^verbatim>\<open>StrWhiteSpaceChar\<close>): the six ASCII characters, and in
  their UTF-8 bytes U+00A0, U+1680, U+2000 to U+200A, U+2028, U+2029, U+202F, U+205F,
  U+3000 and U+FEFF. \<open>space_len\<close> is the number of bytes of the white-space character
  at the head of a string, 0 when there is none.\<close>

definition is_space :: "char \<Rightarrow> bool" where
  "is_space c = (c = CHR '' '' \<or> c = CHR 0x09 \<or> c = CHR 0x0A \<or> c = CHR 0x0B
     \<or> c = CHR 0x0C \<or> c = CHR 0x0D)"

definition space_len :: "string \<Rightarrow> nat" where
  "space_len s =
     (if s \<noteq> [] \<and> is_space (hd s) then 1
      else if take 2 s = [CHR 0xC2, CHR 0xA0] then 2
      else if take 3 s = [CHR 0xE1, CHR 0x9A, CHR 0x80]
             \<or> (take 2 s = [CHR 0xE2, CHR 0x80] \<and> length s \<ge> 3
                  \<and> (128 \<le> (of_char (s ! 2) :: int) \<and> (of_char (s ! 2) :: int) \<le> 138
                       \<or> s ! 2 = CHR 0xA8 \<or> s ! 2 = CHR 0xA9 \<or> s ! 2 = CHR 0xAF))
             \<or> take 3 s = [CHR 0xE2, CHR 0x81, CHR 0x9F]
             \<or> take 3 s = [CHR 0xE3, CHR 0x80, CHR 0x80]
             \<or> take 3 s = [CHR 0xEF, CHR 0xBB, CHR 0xBF] then 3
      else 0)"

function skip_space :: "string \<Rightarrow> string" where
  "skip_space s = (if space_len s = 0 then s else skip_space (drop (space_len s) s))"
  by pat_completeness auto
termination
proof (relation "measure length")
  show "wf (measure length)" by simp
next
  fix s :: string
  assume a: "space_len s \<noteq> 0"
  have "space_len [] = 0" by (simp add: space_len_def)
  with a have "s \<noteq> []" by auto
  with a show "(drop (space_len s) s, s) \<in> measure length" by simp
qed

declare skip_space.simps [simp del]

text \<open>White space at the end: the longest suffix that is white space throughout.\<close>

fun drop_trailing_space :: "string \<Rightarrow> string" where
  "drop_trailing_space [] = []"
| "drop_trailing_space (c # cs) =
     (if skip_space (c # cs) = [] then [] else c # drop_trailing_space cs)"

definition trim :: "string \<Rightarrow> string" where
  "trim s = drop_trailing_space (skip_space s)"

text \<open>\<^verbatim>\<open>ToString\<close>. An array joins its elements with commas, \<^verbatim>\<open>null\<close> and
  \<^verbatim>\<open>undefined\<close> elements giving the empty string.\<close>

fun to_str :: "jsval \<Rightarrow> string"
  and join_elems :: "jsval list \<Rightarrow> string" where
  "to_str JUndefined = ''undefined''"
| "to_str JNull = ''null''"
| "to_str (JBool b) = (if b then ''true'' else ''false'')"
| "to_str (JNumber n) = num_to_string n"
| "to_str (JString s) = s"
| "to_str (JArray xs) = join_elems xs"
| "to_str (JObject ps) = ''[object Object]''"
| "join_elems [] = []"
| "join_elems (x # xs) =
     (if x = JNull \<or> x = JUndefined then [] else to_str x)
       @ (if xs = [] then [] else CHR '','' # join_elems xs)"

text \<open>\<^verbatim>\<open>StringToNumber\<close>: surrounding white space is ignored; the empty string is 0;
  \<^verbatim>\<open>Infinity\<close> with an optional sign, an unsigned literal in base 16, 8 or 2, and an
  optionally signed run of decimal digits have their values. Everything else is \<^verbatim>\<open>NaN\<close>
  here; among it are the decimal literals with a fraction or an exponent, whose numbers
  the model does not have.\<close>

definition string_to_number :: "string \<Rightarrow> jsnum" where
  "string_to_number s =
     (let t = trim s;
          neg = (t \<noteq> [] \<and> hd t = CHR ''-'');
          ds = (if t \<noteq> [] \<and> (hd t = CHR ''-'' \<or> hd t = CHR ''+'') then tl t else t)
      in if t = [] then Num 0
         else if ds = ''Infinity'' then (if neg then NegInf else PosInf)
         else if take 2 t = ''0x'' \<or> take 2 t = ''0X'' then
           (if digits_in_base 16 (drop 2 t) then Num (value_in_base 16 (drop 2 t)) else NaN)
         else if take 2 t = ''0o'' \<or> take 2 t = ''0O'' then
           (if digits_in_base 8 (drop 2 t) then Num (value_in_base 8 (drop 2 t)) else NaN)
         else if take 2 t = ''0b'' \<or> take 2 t = ''0B'' then
           (if digits_in_base 2 (drop 2 t) then Num (value_in_base 2 (drop 2 t)) else NaN)
         else if ds \<noteq> [] \<and> list_all is_digit ds
           then Num (if neg then - dec_val ds else dec_val ds)
         else NaN)"

text \<open>\<^verbatim>\<open>ToNumber\<close>.\<close>

fun to_number :: "jsval \<Rightarrow> jsnum" where
  "to_number JUndefined = NaN"
| "to_number JNull = Num 0"
| "to_number (JBool b) = Num (if b then 1 else 0)"
| "to_number (JNumber n) = n"
| "to_number (JString s) = string_to_number s"
| "to_number (JArray xs) = string_to_number (to_str (JArray xs))"
| "to_number (JObject ps) = NaN"

text \<open>Addition and subtraction: exact on integers, \<^verbatim>\<open>NaN\<close> as soon as an operand is
  \<^verbatim>\<open>NaN\<close> or two infinities cancel, the infinity otherwise.\<close>

fun num_add :: "jsnum \<Rightarrow> jsnum \<Rightarrow> jsnum" where
  "num_add (Num a) (Num b) = Num (a + b)"
| "num_add NaN y = NaN"
| "num_add x NaN = NaN"
| "num_add PosInf NegInf = NaN"
| "num_add NegInf PosInf = NaN"
| "num_add PosInf y = PosInf"
| "num_add NegInf y = NegInf"
| "num_add (Num a) PosInf = PosInf"
| "num_add (Num a) NegInf = NegInf"

fun num_sub :: "jsnum \<Rightarrow> jsnum \<Rightarrow> jsnum" where
  "num_sub (Num a) (Num b) = Num (a - b)"
| "num_sub NaN y = NaN"
| "num_sub x NaN = NaN"
| "num_sub PosInf PosInf = NaN"
| "num_sub NegInf NegInf = NaN"
| "num_sub PosInf y = PosInf"
| "num_sub NegInf y = NegInf"
| "num_sub (Num a) PosInf = NegInf"
| "num_sub (Num a) NegInf = PosInf"

text \<open>\<^verbatim>\<open>x <= y\<close> on numbers: every comparison with \<^verbatim>\<open>NaN\<close> is false.\<close>

fun num_le :: "jsnum \<Rightarrow> jsnum \<Rightarrow> bool" where
  "num_le (Num a) (Num b) = (a \<le> b)"
| "num_le NaN y = False"
| "num_le x NaN = False"
| "num_le NegInf y = True"
| "num_le x PosInf = True"
| "num_le PosInf y = False"
| "num_le (Num a) NegInf = False"

text \<open>\<^verbatim>\<open>a - b\<close> converts both operands to numbers.\<close>

definition js_sub :: "jsval \<Rightarrow> jsval \<Rightarrow> jsnum" where
  "js_sub a b = num_sub (to_number a) (to_number b)"

text \<open>\<^verbatim>\<open>a + b\<close> concatenates when either operand is a string after \<^verbatim>\<open>ToPrimitive\<close>
  (strings, arrays and objects), and adds numbers otherwise.\<close>

fun stringish :: "jsval \<Rightarrow> bool" where
  "stringish (JString s) = True"
| "stringish (JArray xs) = True"
| "stringish (JObject ps) = True"
| "stringish _ = False"

definition js_add :: "jsval \<Rightarrow> jsval \<Rightarrow> jsval" where
  "js_add a b =
     (if stringish a \<or> stringish b then JString (to_str a @ to_str b)
      else JNumber (num_add (to_number a) (to_number b)))"

subsection \<open>Property access\<close>

text \<open>\<^verbatim>\<open>v.k\<close> for the property names this program uses (none of them is inherited from a
  prototype): reading from \<^verbatim>\<open>undefined\<close> or \<^verbatim>\<open>null\<close> throws, a missing property reads as
  \<^verbatim>\<open>undefined\<close>.\<close>

fun get_prop :: "jsval \<Rightarrow> string \<Rightarrow> js_error + jsval" where
  "get_prop JUndefined k =
     Inl (TypeError (''Cannot read properties of undefined (reading '' @ k @ '')''))"
| "get_prop JNull k =
     Inl (TypeError (''Cannot read properties of null (reading '' @ k @ '')''))"
| "get_prop (JObject ps) k = Inr (case map_of ps k of None \<Rightarrow> JUndefined | Some v \<Rightarrow> v)"
| "get_prop _ k = Inr JUndefined"

text \<open>Writing an own property keeps the position of an existing key and appends a new one.\<close>

fun obj_put :: "(string \<times> jsval) list \<Rightarrow> string \<Rightarrow> jsval \<Rightarrow> (string \<times> jsval) list" where
  "obj_put [] k v = [(k, v)]"
| "obj_put ((k', v') # ps) k v = (if k' = k then (k, v) # ps else (k', v') # obj_put ps k v)"

text \<open>\<^verbatim>\<open>o.k = v\<close> in strict mode (the file is a module). A named property put on an array is
  not an element: \<^verbatim>\<open>JSON.stringify\<close> does not print it and the program never reads it
  back, so the array is returned as it is.\<close>

fun set_prop :: "jsval \<Rightarrow> string \<Rightarrow> jsval \<Rightarrow> js_error + jsval" where
  "set_prop JUndefined k v =
     Inl (TypeError (''Cannot set properties of undefined (setting '' @ k @ '')''))"
| "set_prop JNull k v =
     Inl (TypeError (''Cannot set properties of null (setting '' @ k @ '')''))"
| "set_prop (JObject ps) k v = Inr (JObject (obj_put ps k v))"
| "set_prop (JArray xs) k v = Inr (JArray xs)"
| "set_prop _ k v = Inl (TypeError (''Cannot create property '' @ k))"

text \<open>\<^verbatim>\<open>c.claudeAiOauth.k = v\<close>. The parsed document is a tree, so the update of the inner
  object is written back into the outer one.\<close>

definition assign_oauth :: "jsval \<Rightarrow> string \<Rightarrow> jsval \<Rightarrow> js_error + jsval" where
  "assign_oauth c k v =
     (case get_prop c ''claudeAiOauth'' of
        Inl e \<Rightarrow> Inl e
      | Inr inner \<Rightarrow>
          (case set_prop inner k v of
             Inl e \<Rightarrow> Inl e
           | Inr inner' \<Rightarrow> set_prop c ''claudeAiOauth'' inner'))"

section \<open>JSON text\<close>

text \<open>
  The credential file and the bodies exchanged with the token endpoint are JSON text.
  \<^verbatim>\<open>JSON.stringify(value, null, 2)\<close> and \<^verbatim>\<open>JSON.parse\<close> belong to the platform; they are
  written out here, after ECMA-262, on the values above, so that what is written to the
  file is the very text that is read back.
\<close>

definition dq :: char where
  "dq = CHR 0x22"

definition bs :: char where
  "bs = CHR 0x5C"

definition hex_digit :: "int \<Rightarrow> char" where
  "hex_digit d = (if d < 10 then char_of (48 + d) else char_of (87 + d))"

subsection \<open>Serialisation\<close>

text \<open>\<^verbatim>\<open>QuoteJSONString\<close>: the quote, the backslash and the control characters are escaped,
  every other character is copied.\<close>

definition escape_char :: "char \<Rightarrow> string" where
  "escape_char c =
     (if c = dq then [bs, dq]
      else if c = bs then [bs, bs]
      else if c = CHR 0x08 then [bs, CHR ''b'']
      else if c = CHR 0x0C then [bs, CHR ''f'']
      else if c = CHR 0x0A then [bs, CHR ''n'']
      else if c = CHR 0x0D then [bs, CHR ''r'']
      else if c = CHR 0x09 then [bs, CHR ''t'']
      else if (of_char c :: int) < 32
        then [bs, CHR ''u'', CHR ''0'', CHR ''0'',
              hex_digit ((of_char c :: int) div 16), hex_digit ((of_char c :: int) mod 16)]
      else [c])"

definition quote :: "string \<Rightarrow> string" where
  "quote s = dq # concat (map escape_char s) @ [dq]"

definition indent :: "nat \<Rightarrow> string" where
  "indent n = replicate n CHR '' ''"

text \<open>\<^verbatim>\<open>SerializeJSONProperty\<close> with the gap of two spaces, at indentation \<open>i\<close>. A
  number that is not finite is printed as \<^verbatim>\<open>null\<close>; so is an \<^verbatim>\<open>undefined\<close> array element;
  a property whose value is \<^verbatim>\<open>undefined\<close> is left out.\<close>

fun ser :: "nat \<Rightarrow> jsval \<Rightarrow> string"
  and ser_elems :: "nat \<Rightarrow> jsval list \<Rightarrow> string"
  and ser_members :: "nat \<Rightarrow> (string \<times> jsval) list \<Rightarrow> string" where
  "ser i JUndefined = ''null''"
| "ser i JNull = ''null''"
| "ser i (JBool b) = (if b then ''true'' else ''false'')"
| "ser i (JNumber (Num n)) = show_int n"
| "ser i (JNumber NaN) = ''null''"
| "ser i (JNumber PosInf) = ''null''"
| "ser i (JNumber NegInf) = ''null''"
| "ser i (JString s) = quote s"
| "ser i (JArray xs) =
     (if xs = [] then ''[]''
      else ''[\<newline>'' @ ser_elems (i + 2) xs @ ''\<newline>'' @ indent i @ '']'')"
| "ser i (JObject ps) =
     (if list_all (\<lambda>p. snd p = JUndefined) ps then ''{}''
      else ''{\<newline>'' @ ser_members (i + 2) ps @ ''\<newline>'' @ indent i @ ''}'')"
| "ser_elems i [] = []"
| "ser_elems i (x # xs) =
     indent i @ ser i x @ (if xs = [] then [] else '',\<newline>'' @ ser_elems i xs)"
| "ser_members i [] = []"
| "ser_members i (p # ps) =
     (if snd p = JUndefined then ser_members i ps
      else indent i @ quote (fst p) @ '': '' @ ser i (snd p)
             @ (if list_all (\<lambda>p. snd p = JUndefined) ps then []
                else '',\<newline>'' @ ser_members i ps))"

text \<open>\<^verbatim>\<open>JSON.stringify(v, null, 2)\<close>: \<^verbatim>\<open>undefined\<close> itself has no JSON text.\<close>

definition JSON_stringify :: "jsval \<Rightarrow> string option" where
  "JSON_stringify v = (if v = JUndefined then None else Some (ser 0 v))"

text \<open>\<^verbatim>\<open>JSON.stringify(v)\<close>, without a gap: the same text with no line break, no
  indentation and no space after the colon.\<close>

fun compact :: "jsval \<Rightarrow> string"
  and compact_elems :: "jsval list \<Rightarrow> string"
  and compact_members :: "(string \<times> jsval) list \<Rightarrow> string" where
  "compact JUndefined = ''null''"
| "compact JNull = ''null''"
| "compact (JBool b) = (if b then ''true'' else ''false'')"
| "compact (JNumber (Num n)) = show_int n"
| "compact (JNumber NaN) = ''null''"
| "compact (JNumber PosInf) = ''null''"
| "compact (JNumber NegInf) = ''null''"
| "compact (JString s) = quote s"
| "compact (JArray xs) = ''['' @ compact_elems xs @ '']''"
| "compact (JObject ps) = ''{'' @ compact_members ps @ ''}''"
| "compact_elems [] = []"
| "compact_elems (x # xs) = compact x @ (if xs = [] then [] else '','' @ compact_elems xs)"
| "compact_members [] = []"
| "compact_members (p # ps) =
     (if snd p = JUndefined then compact_members ps
      else quote (fst p) @ '':'' @ compact (snd p)
             @ (if list_all (\<lambda>p. snd p = JUndefined) ps then []
                else '','' @ compact_members ps))"

definition JSON_stringify_compact :: "jsval \<Rightarrow> string option" where
  "JSON_stringify_compact v = (if v = JUndefined then None else Some (compact v))"

subsection \<open>Parsing\<close>

definition is_ws :: "char \<Rightarrow> bool" where
  "is_ws c = (c = CHR '' '' \<or> c = CHR 0x09 \<or> c = CHR 0x0A \<or> c = CHR 0x0D)"

definition skip_ws :: "string \<Rightarrow> string" where
  "skip_ws s = dropWhile is_ws s"

definition unescape_char :: "char \<Rightarrow> char option" where
  "unescape_char e =
     (if e = dq then Some dq
      else if e = bs then Some bs
      else if e = CHR ''/'' then Some CHR ''/''
      else if e = CHR ''b'' then Some (CHR 0x08)
      else if e = CHR ''f'' then Some (CHR 0x0C)
      else if e = CHR ''n'' then Some (CHR 0x0A)
      else if e = CHR ''r'' then Some (CHR 0x0D)
      else if e = CHR ''t'' then Some (CHR 0x09)
      else None)"

text \<open>The UTF-8 bytes of a \<^verbatim>\<open>\uXXXX\<close> code unit (the two halves of a surrogate pair
  are encoded one by one).\<close>

definition utf8_enc :: "int \<Rightarrow> string" where
  "utf8_enc n =
     (if n < 128 then [char_of n]
      else if n < 2048 then [char_of (192 + n div 64), char_of (128 + n mod 64)]
      else [char_of (224 + n div 4096), char_of (128 + (n div 64) mod 64),
            char_of (128 + n mod 64)])"

text \<open>The characters of a string literal after its opening quote, up to the closing one;
  the result is the string and the rest of the input.\<close>

fun parse_chars :: "string \<Rightarrow> (string \<times> string) option" where
  "parse_chars [] = None"
| "parse_chars (c # cs) =
     (if c = dq then Some ([], cs)
      else if c = bs then
        (case cs of
           [] \<Rightarrow> None
         | e # r \<Rightarrow>
             if e = CHR ''u'' then
               (case r of
                  h1 # h2 # h3 # h4 # r' \<Rightarrow>
                    (case (hex_val h1, hex_val h2, hex_val h3, hex_val h4) of
                       (Some a, Some b, Some c, Some d) \<Rightarrow>
                         (case parse_chars r' of
                            None \<Rightarrow> None
                          | Some (s, t) \<Rightarrow>
                              Some (utf8_enc (((a * 16 + b) * 16 + c) * 16 + d) @ s, t))
                     | _ \<Rightarrow> None)
                | _ \<Rightarrow> None)
             else
               (case unescape_char e of
                  None \<Rightarrow> None
                | Some x \<Rightarrow>
                    (case parse_chars r of
                       None \<Rightarrow> None
                     | Some (s, t) \<Rightarrow> Some (x # s, t))))
      else if (of_char c :: int) < 32 then None
      else
        (case parse_chars cs of
           None \<Rightarrow> None
         | Some (s, t) \<Rightarrow> Some (c # s, t)))"

text \<open>A number: an optional minus sign and decimal digits without a leading zero. A
  fraction or an exponent denotes a number outside the integer fragment; such a literal is
  not accepted here.\<close>

definition parse_number :: "string \<Rightarrow> (jsval \<times> string) option" where
  "parse_number s =
     (let neg = (s \<noteq> [] \<and> hd s = CHR ''-'');
          s1 = (if neg then tl s else s);
          ds = takeWhile is_digit s1;
          rest = dropWhile is_digit s1
      in if ds = [] \<or> (hd ds = CHR ''0'' \<and> tl ds \<noteq> []) then None
         else if rest \<noteq> [] \<and> (hd rest = CHR ''.'' \<or> hd rest = CHR ''e'' \<or> hd rest = CHR ''E'')
           then None
         else Some (JNumber (Num (if neg then - dec_val ds else dec_val ds)), rest))"

definition parse_literal :: "string \<Rightarrow> jsval \<Rightarrow> string \<Rightarrow> (jsval \<times> string) option" where
  "parse_literal lit v s =
     (if take (length lit) s = lit then Some (v, drop (length lit) s) else None)"

text \<open>Recursive descent. The first argument bounds the depth of the calls;
  \<open>JSON_parse\<close> below passes the length of the text, which exceeds the depth that any
  text of that length can ask for. A repeated key keeps its first position and its last
  value.\<close>

fun parse_value :: "nat \<Rightarrow> string \<Rightarrow> (jsval \<times> string) option"
  and parse_elems :: "nat \<Rightarrow> jsval list \<Rightarrow> string \<Rightarrow> (jsval \<times> string) option"
  and parse_members :: "nat \<Rightarrow> (string \<times> jsval) list \<Rightarrow> string \<Rightarrow> (jsval \<times> string) option"
  where
  "parse_value 0 s = None"
| "parse_value (Suc n) s =
     (case skip_ws s of
        [] \<Rightarrow> None
      | c # r \<Rightarrow>
          if c = CHR ''{'' then
            (case skip_ws r of
               [] \<Rightarrow> None
             | c' # r' \<Rightarrow> if c' = CHR ''}'' then Some (JObject [], r')
                          else parse_members n [] (c' # r'))
          else if c = CHR ''['' then
            (case skip_ws r of
               [] \<Rightarrow> None
             | c' # r' \<Rightarrow> if c' = CHR '']'' then Some (JArray [], r')
                          else parse_elems n [] (c' # r'))
          else if c = dq then
            (case parse_chars r of
               None \<Rightarrow> None
             | Some (str, t) \<Rightarrow> Some (JString str, t))
          else if c = CHR ''t'' then parse_literal ''true'' (JBool True) (c # r)
          else if c = CHR ''f'' then parse_literal ''false'' (JBool False) (c # r)
          else if c = CHR ''n'' then parse_literal ''null'' JNull (c # r)
          else parse_number (c # r))"
| "parse_elems 0 acc s = None"
| "parse_elems (Suc n) acc s =
     (case parse_value n s of
        None \<Rightarrow> None
      | Some (v, r) \<Rightarrow>
          (case skip_ws r of
             [] \<Rightarrow> None
           | c # r' \<Rightarrow>
               if c = CHR '','' then parse_elems n (acc @ [v]) r'
               else if c = CHR '']'' then Some (JArray (acc @ [v]), r')
               else None))"
| "parse_members 0 acc s = None"
| "parse_members (Suc n) acc s =
     (case skip_ws s of
        [] \<Rightarrow> None
      | c # r \<Rightarrow>
          if c \<noteq> dq then None
          else
            (case parse_chars r of
               None \<Rightarrow> None
             | Some (k, r1) \<Rightarrow>
                 (case skip_ws r1 of
                    [] \<Rightarrow> None
                  | c1 # r2 \<Rightarrow>
                      if c1 \<noteq> CHR '':'' then None
                      else
                        (case parse_value n r2 of
                           None \<Rightarrow> None
                         | Some (v, r3) \<Rightarrow>
                             (case skip_ws r3 of
                                [] \<Rightarrow> None
                              | c3 # r4 \<Rightarrow>
                                  if c3 = CHR '','' then parse_members n (obj_put acc k v) r4
                                  else if c3 = CHR ''}'' then Some (JObject (obj_put acc k v), r4)
                                  else None)))))"

text \<open>\<^verbatim>\<open>JSON.parse\<close>: one value, then nothing but white space. \<open>None\<close> stands for the
  \<^verbatim>\<open>SyntaxError\<close>.\<close>

definition JSON_parse :: "string \<Rightarrow> jsval option" where
  "JSON_parse s =
     (case parse_value (Suc (length s)) s of
        None \<Rightarrow> None
      | Some (v, r) \<Rightarrow> if skip_ws r = [] then Some v else None)"

subsection \<open>JSON values\<close>

text \<open>The values that JSON text denotes: no \<^verbatim>\<open>undefined\<close>, no number that is not
  finite, no key twice in an object. \<open>JSON_parse\<close> returns only such values, and they are the ones that are read
  back as they were written.\<close>

fun json_value :: "jsval \<Rightarrow> bool" where
  "json_value JUndefined = False"
| "json_value JNull = True"
| "json_value (JBool b) = True"
| "json_value (JNumber n) = is_finite n"
| "json_value (JString s) = True"
| "json_value (JArray xs) = list_all json_value xs"
| "json_value (JObject ps) = (distinct (map fst ps) \<and> list_all (\<lambda>p. json_value (snd p)) ps)"

text \<open>The number of nested calls the parser needs for the text of a value.\<close>

fun need :: "jsval \<Rightarrow> nat"
  and need_elems :: "jsval list \<Rightarrow> nat"
  and need_members :: "(string \<times> jsval) list \<Rightarrow> nat" where
  "need (JArray xs) = Suc (need_elems xs)"
| "need (JObject ps) = Suc (need_members ps)"
| "need v = Suc 0"
| "need_elems [] = 0"
| "need_elems (x # xs) = Suc (max (need x) (need_elems xs))"
| "need_members [] = 0"
| "need_members (p # ps) = Suc (max (need (snd p)) (need_members ps))"

text \<open>What may follow a number in a text: no digit, and no fraction or exponent.\<close>

definition number_end :: "string \<Rightarrow> bool" where
  "number_end rest = (rest = [] \<or> \<not> is_digit (hd rest) \<and> hd rest \<noteq> CHR ''.''
     \<and> hd rest \<noteq> CHR ''e'' \<and> hd rest \<noteq> CHR ''E'')"

text \<open>The first character of the text of a value.\<close>

definition value_start :: "char \<Rightarrow> bool" where
  "value_start c = (\<not> is_ws c \<and> c \<noteq> CHR '']'' \<and> c \<noteq> CHR ''}'')"

section \<open>The platform\<close>

text \<open>
  The program runs against a file system, a clock, the network and the console. The
  \<open>world\<close> holds what the program can observe of them and what it does to them:
  the path and the text of the credential file (\<open>None\<close>: no such file), whether its
  directory exists, the clock in milliseconds, the behaviour of the token endpoint, and the logs of
  the requests sent, of the texts written to the file and of the console lines. An
  operation of the file system may be made to fail (\<open>fault\<close>), as a denied permission or
  a full disk would.
\<close>

datatype fs_op = ReadFile | WriteFile | Mkdir

record request =
  req_url :: string
  req_method :: string
  req_headers :: "(string \<times> string) list"
  req_body :: "string option"

datatype fetch_outcome =
    NetworkFailure string
  | Response int string

record world =
  credentialsPath :: string
  cred_file :: "string option"
  dir :: bool
  fault :: "fs_op \<Rightarrow> string option"
  clock :: int
  remote :: "request \<Rightarrow> fetch_outcome"
  requests :: "request list"
  writes :: "string list"
  console :: "string list"

type_synonym 'a io = "world \<Rightarrow> (js_error + 'a) \<times> world"

definition readFile :: "string io" where
  "readFile w =
     (case fault w ReadFile of
        Some m \<Rightarrow> (Inl (SystemError m), w)
      | None \<Rightarrow>
          (case cred_file w of
             None \<Rightarrow> (Inl (SystemError ''ENOENT: no such file or directory''), w)
           | Some t \<Rightarrow> (Inr t, w)))"

text \<open>\<^verbatim>\<open>mkdir(claudeDir, { recursive: true })\<close>.\<close>

definition mkdir :: "unit io" where
  "mkdir w =
     (case fault w Mkdir of
        Some m \<Rightarrow> (Inl (SystemError m), w)
      | None \<Rightarrow> (Inr (), w\<lparr>dir := True\<rparr>))"

text \<open>\<^verbatim>\<open>writeFile(credentialsPath, data)\<close> replaces the whole content. The data is what
  \<^verbatim>\<open>JSON.stringify\<close> returned, which is no string when the value was \<^verbatim>\<open>undefined\<close>.\<close>

definition writeFile :: "string option \<Rightarrow> unit io" where
  "writeFile data w =
     (case data of
        None \<Rightarrow> (Inl (TypeError ''The data argument must be of type string''), w)
      | Some t \<Rightarrow>
          (case fault w WriteFile of
             Some m \<Rightarrow> (Inl (SystemError m), w)
           | None \<Rightarrow>
               if \<not> dir w then (Inl (SystemError ''ENOENT: no such file or directory''), w)
               else (Inr (), w\<lparr>cred_file := Some t, writes := writes w @ [t]\<rparr>)))"

definition fetch :: "request \<Rightarrow> world \<Rightarrow> fetch_outcome \<times> world" where
  "fetch req w = (remote w req, w\<lparr>requests := requests w @ [req]\<rparr>)"

definition console_log :: "string \<Rightarrow> world \<Rightarrow> world" where
  "console_log m w = w\<lparr>console := console w @ [m]\<rparr>"

text \<open>\<^verbatim>\<open>parseInt(s)\<close> without a radix: leading white space and a sign are skipped, a
  \<^verbatim>\<open>0x\<close> prefix selects base 16, the longest run of digits is read, and an empty run gives
  \<^verbatim>\<open>NaN\<close>. What follows the digits is ignored.\<close>

definition parseInt :: "string \<Rightarrow> jsnum" where
  "parseInt s =
     (let s1 = skip_space s;
          neg = (s1 \<noteq> [] \<and> hd s1 = CHR ''-'');
          s2 = (if s1 \<noteq> [] \<and> (hd s1 = CHR ''-'' \<or> hd s1 = CHR ''+'') then tl s1 else s1)
      in if take 2 s2 = ''0x'' \<or> take 2 s2 = ''0X'' then
           (let z = takeWhile (\<lambda>c. hex_val c \<noteq> None) (drop 2 s2)
            in if z = [] then NaN
               else Num (if neg then - value_in_base 16 z else value_in_base 16 z))
         else
           (let z = takeWhile is_digit s2
            in if z = [] then NaN else Num (if neg then - dec_val z else dec_val z)))"

section \<open>The program: \<^verbatim>\<open>setup-oauth.ts\<close>\<close>

text \<open>The interface \<^verbatim>\<open>StoredCredentials\<close>: the shape of a credential record.\<close>

definition StoredCredentials :: "string \<Rightarrow> string \<Rightarrow> jsnum \<Rightarrow> string list \<Rightarrow> jsval" where
  "StoredCredentials a r e scopes =
     JObject [(''claudeAiOauth'', JObject
       [(''accessToken'', JString a),
        (''refreshToken'', JString r),
        (''expiresAt'', JNumber e),
        (''scopes'', JArray (map JString scopes))])]"

subsection \<open>\<^verbatim>\<open>refreshAccessToken\<close>\<close>

definition refresh_request :: "jsval \<Rightarrow> request" where
  "refresh_request rt =
     \<lparr>req_url = ''https://api.anthropic.com/v1/oauth/token'',
      req_method = ''POST'',
      req_headers = [(''Content-Type'', ''application/json'')],
      req_body = JSON_stringify_compact
        (JObject [(''grant_type'', JString ''refresh_token''), (''refresh_token'', rt)])\<rparr>"

definition response_ok :: "int \<Rightarrow> bool" where
  "response_ok status = (200 \<le> status \<and> status \<le> 299)"

definition refreshAccessToken :: "jsval \<Rightarrow> jsval io" where
  "refreshAccessToken rt w =
     (case fetch (refresh_request rt) w of
        (NetworkFailure m, w1) \<Rightarrow> (Inl (TypeError m), w1)
      | (Response status bodyText, w1) \<Rightarrow>
          if \<not> response_ok status
            then (Inl (Error (''Failed to refresh token: '' @ show_int status @ '' '' @ bodyText)),
                  w1)
          else
            (case JSON_parse bodyText of
               None \<Rightarrow> (Inl (SyntaxError ''Unexpected token in JSON''), w1)
             | Some v \<Rightarrow> (Inr v, w1)))"

subsection \<open>\<^verbatim>\<open>loadCredentials\<close> and \<^verbatim>\<open>saveCredentials\<close>\<close>

text \<open>The body of the \<^verbatim>\<open>try\<close> block.\<close>

definition loadCredentials_try :: "jsval io" where
  "loadCredentials_try w =
     (case readFile w of
        (Inl e, w1) \<Rightarrow> (Inl e, w1)
      | (Inr credentialsContent, w1) \<Rightarrow>
          (case JSON_parse credentialsContent of
             None \<Rightarrow> (Inl (SyntaxError ''Unexpected token in JSON''), w1)
           | Some v \<Rightarrow> (Inr v, w1)))"

definition loadCredentials :: "jsval io" where
  "loadCredentials w =
     (case loadCredentials_try w of
        (Inl error, w1) \<Rightarrow> (Inr JNull, w1)
      | (Inr v, w1) \<Rightarrow> (Inr v, w1))"

definition saveCredentials :: "jsval \<Rightarrow> unit io" where
  "saveCredentials credentials w =
     (case mkdir w of
        (Inl e, w1) \<Rightarrow> (Inl e, w1)
      | (Inr u, w1) \<Rightarrow> writeFile (JSON_stringify credentials) w1)"

subsection \<open>\<^verbatim>\<open>ensureValidToken\<close>\<close>

text \<open>\<^verbatim>\<open>Math.floor(Date.now() / 1000)\<close>.\<close>

definition now_seconds :: "world \<Rightarrow> int" where
  "now_seconds w = clock w div 1000"

text \<open>The three assignments of the \<^verbatim>\<open>try\<close> block, from the response \<open>resp\<close>.\<close>

definition update_credentials :: "jsval \<Rightarrow> int \<Rightarrow> jsval \<Rightarrow> js_error + jsval" where
  "update_credentials credentials now resp =
     (case get_prop resp ''access_token'' of
        Inl e \<Rightarrow> Inl e
      | Inr a \<Rightarrow>
     (case assign_oauth credentials ''accessToken'' a of
        Inl e \<Rightarrow> Inl e
      | Inr c1 \<Rightarrow>
     (case get_prop resp ''refresh_token'' of
        Inl e \<Rightarrow> Inl e
      | Inr r \<Rightarrow>
     (case assign_oauth c1 ''refreshToken'' r of
        Inl e \<Rightarrow> Inl e
      | Inr c2 \<Rightarrow>
     (case get_prop resp ''expires_in'' of
        Inl e \<Rightarrow> Inl e
      | Inr x \<Rightarrow> assign_oauth c2 ''expiresAt'' (js_add (JNumber (Num now)) x))))))"

text \<open>The body of the \<^verbatim>\<open>try\<close> block.\<close>

definition ensureValidToken_try :: "jsval \<Rightarrow> int \<Rightarrow> unit io" where
  "ensureValidToken_try credentials now w =
     (case get_prop credentials ''claudeAiOauth'' of
        Inl e \<Rightarrow> (Inl e, w)
      | Inr oauth \<Rightarrow>
     (case get_prop oauth ''refreshToken'' of
        Inl e \<Rightarrow> (Inl e, w)
      | Inr rt \<Rightarrow>
     (case refreshAccessToken rt w of
        (Inl e, w1) \<Rightarrow> (Inl e, w1)
      | (Inr refreshResponse, w1) \<Rightarrow>
     (case update_credentials credentials now refreshResponse of
        Inl e \<Rightarrow> (Inl e, w1)
      | Inr credentials' \<Rightarrow>
     (case saveCredentials credentials' w1 of
        (Inl e, w2) \<Rightarrow> (Inl e, w2)
      | (Inr u, w2) \<Rightarrow> (Inr (), console_log ''Access token refreshed successfully'' w2))))))"

definition ensureValidToken :: "unit io" where
  "ensureValidToken w =
     (case loadCredentials w of
        (Inl e, w1) \<Rightarrow> (Inl e, w1)
      | (Inr credentials, w1) \<Rightarrow>
          if \<not> truthy credentials
            then (Inl (Error ''No OAuth credentials found. Please set up OAuth first.''), w1)
          else
            (let now = now_seconds w1 in
             case get_prop credentials ''claudeAiOauth'' of
               Inl e \<Rightarrow> (Inl e, w1)
             | Inr oauth \<Rightarrow>
            (case get_prop oauth ''expiresAt'' of
               Inl e \<Rightarrow> (Inl e, w1)
             | Inr expiresAt \<Rightarrow>
                 if num_le (js_sub expiresAt (JNumber (Num now))) (Num 300) then
                   (case ensureValidToken_try credentials now
                           (console_log ''Access token expired or expiring soon, refreshing...'' w1)
                    of
                      (Inl error, w2) \<Rightarrow>
                        (Inl (Error (''Failed to refresh OAuth token: '' @ message error)), w2)
                    | (Inr u, w2) \<Rightarrow> (Inr (), w2))
                 else (Inr (), w1))))"

subsection \<open>\<^verbatim>\<open>setupOAuthCredentials\<close>\<close>

text \<open>The input interface \<^verbatim>\<open>OAuthCredentials\<close>: three strings.\<close>

record OAuthCredentials =
  accessToken :: string
  refreshToken :: string
  expiresAt :: string

definition credentialsData :: "OAuthCredentials \<Rightarrow> jsval" where
  "credentialsData credentials =
     JObject [(''claudeAiOauth'', JObject
       [(''accessToken'', JString (accessToken credentials)),
        (''refreshToken'', JString (refreshToken credentials)),
        (''expiresAt'', JNumber (parseInt (expiresAt credentials))),
        (''scopes'', JArray [JString ''user:inference'', JString ''user:profile''])])]"

definition setupOAuthCredentials :: "OAuthCredentials \<Rightarrow> unit io" where
  "setupOAuthCredentials credentials w =
     (case mkdir w of
        (Inl e, w1) \<Rightarrow> (Inl e, w1)
      | (Inr u, w1) \<Rightarrow>
          (case writeFile (JSON_stringify (credentialsData credentials)) w1 of
             (Inl e, w2) \<Rightarrow> (Inl e, w2)
           | (Inr u, w2) \<Rightarrow>
               (Inr (), console_log (''OAuth credentials written to '' @ credentialsPath w2) w2)))"

section \<open>Example worlds\<close>

text \<open>Concrete inputs on which the theorems below are instantiated: a machine without
  credentials, one with a record that expires 100 seconds from now, the same record long
  before its expiry, and token endpoints that answer, refuse, or cannot be reached.\<close>

definition no_fault :: "fs_op \<Rightarrow> string option" where
  "no_fault op = None"

definition token_response :: string where
  "token_response = ser 0 (JObject [(''access_token'', JString ''A2''),
     (''refresh_token'', JString ''R2''), (''expires_in'', JNumber (Num 3600))])"

definition endpoint_ok :: "request \<Rightarrow> fetch_outcome" where
  "endpoint_ok req = Response 200 token_response"

definition endpoint_401 :: "request \<Rightarrow> fetch_outcome" where
  "endpoint_401 req = Response 401 ''unauthorized''"

definition endpoint_down :: "request \<Rightarrow> fetch_outcome" where
  "endpoint_down req = NetworkFailure ''fetch failed''"

definition empty_world :: world where
  "empty_world =
     \<lparr>credentialsPath = ''/home/runner/.claude/.credentials.json'',
      cred_file = None, dir = False, fault = no_fault, clock = 1700000000000,
      remote = endpoint_ok, requests = [], writes = [], console = []\<rparr>"

definition example_record :: jsval where
  "example_record =
     StoredCredentials ''A1'' ''R1'' (Num 1700000100) [''user:inference'', ''user:profile'']"

definition nan_record :: jsval where
  "nan_record = StoredCredentials ''A1'' ''R1'' NaN [''user:inference'', ''user:profile'']"

definition inf_record :: jsval where
  "inf_record = StoredCredentials ''A1'' ''R1'' PosInf [''user:inference'', ''user:profile'']"

definition stored_world :: world where
  "stored_world = empty_world\<lparr>dir := True, cred_file := Some (ser 0 example_record)\<rparr>"

definition valid_world :: world where
  "valid_world = stored_world\<lparr>clock := 1600000000000\<rparr>"

definition unauthorized_world :: world where
  "unauthorized_world = stored_world\<lparr>remote := endpoint_401\<rparr>"

definition offline_world :: world where
  "offline_world = stored_world\<lparr>remote := endpoint_down\<rparr>"

definition null_world :: world where
  "null_world = empty_world\<lparr>dir := True, cred_file := Some ''null''\<rparr>"

definition empty_object_world :: world where
  "empty_object_world = empty_world\<lparr>dir := True, cred_file := Some ''{}''\<rparr>"

definition example_input :: OAuthCredentials where
  "example_input = \<lparr>accessToken = ''A1'', refreshToken = ''R1'', expiresAt = ''1700000100''\<rparr>"

definition second_input :: OAuthCredentials where
  "second_input = \<lparr>accessToken = ''A9'', refreshToken = ''R9'', expiresAt = ''1800000000''\<rparr>"

definition digit_prefix_input :: OAuthCredentials where
  "digit_prefix_input =
     \<lparr>accessToken = ''A1'', refreshToken = ''R1'', expiresAt = ''1900000000abc''\<rparr>"

definition malformed_input :: OAuthCredentials where
  "malformed_input = \<lparr>accessToken = ''A1'', refreshToken = ''R1'', expiresAt = ''soon''\<rparr>"

section \<open>Numerals and strings are read back as written\<close>

lemma is_digit_digit_char: "0 \<le> d \<Longrightarrow> d < 10 \<Longrightarrow> is_digit (digit_char d)"
  by (simp add: is_digit_def digit_char_def)

lemma digit_val_digit_char: "0 \<le> d \<Longrightarrow> d < 10 \<Longrightarrow> digit_val (digit_char d) = d"
  by (simp add: digit_val_def digit_char_def)

lemma digit_char_zero: "0 \<le> d \<Longrightarrow> d < 10 \<Longrightarrow> digit_char d = CHR ''0'' \<longleftrightarrow> d = 0"
proof -
  assume a: "0 \<le> d" "d < 10"
  have "digit_char d = CHR ''0'' \<longleftrightarrow> (of_char (digit_char d) :: int) = of_char CHR ''0''"
    by (simp only: of_char_eq_iff)
  also have "\<dots> \<longleftrightarrow> d = 0" using a by (simp add: digit_char_def)
  finally show ?thesis .
qed

lemma show_digits_small: "n < 10 \<Longrightarrow> show_digits n = [digit_char n]"
  by (subst show_digits.simps) simp

lemma show_digits_big:
  "\<not> n < 10 \<Longrightarrow> show_digits n = show_digits (n div 10) @ [digit_char (n mod 10)]"
  by (subst show_digits.simps) simp

lemma show_digits_nonempty: "show_digits n \<noteq> []"
  by (cases "n < 10") (simp_all add: show_digits_small show_digits_big)

lemma show_digits_all_digits: "0 \<le> n \<Longrightarrow> list_all is_digit (show_digits n)"
proof (induction n rule: show_digits.induct)
  case (1 n)
  show ?case
  proof (cases "n < 10")
    case True
    with "1.prems" show ?thesis by (simp add: show_digits_small is_digit_digit_char)
  next
    case False
    with "1.prems" have "list_all is_digit (show_digits (n div 10))" using "1.IH" by simp
    with False show ?thesis by (simp add: show_digits_big is_digit_digit_char)
  qed
qed

lemma dec_val_snoc: "dec_val (ds @ [c]) = 10 * dec_val ds + digit_val c"
  by (simp add: dec_val_def)

lemma dec_val_show_digits: "0 \<le> n \<Longrightarrow> dec_val (show_digits n) = n"
proof (induction n rule: show_digits.induct)
  case (1 n)
  show ?case
  proof (cases "n < 10")
    case True
    with "1.prems" show ?thesis
      by (simp add: show_digits_small dec_val_def digit_val_digit_char)
  next
    case False
    with "1.prems" have "dec_val (show_digits (n div 10)) = n div 10" using "1.IH" by simp
    with False show ?thesis
      by (simp add: show_digits_big dec_val_snoc digit_val_digit_char)
  qed
qed

lemma show_digits_no_leading_zero:
  "0 < n \<Longrightarrow> hd (show_digits n) \<noteq> CHR ''0''"
proof (induction n rule: show_digits.induct)
  case (1 n)
  show ?case
  proof (cases "n < 10")
    case True
    with "1.prems" show ?thesis by (simp add: show_digits_small digit_char_zero)
  next
    case False
    then have "0 < n div 10" by simp
    with False have "hd (show_digits (n div 10)) \<noteq> CHR ''0''" using "1.IH" by simp
    with False show ?thesis by (simp add: show_digits_big show_digits_nonempty)
  qed
qed

lemma show_digits_leading_zero:
  "0 \<le> n \<Longrightarrow> \<not> (hd (show_digits n) = CHR ''0'' \<and> tl (show_digits n) \<noteq> [])"
proof (cases "n = 0")
  case True
  then show ?thesis by (simp add: show_digits_small)
next
  case False
  assume "0 \<le> n"
  with False have "0 < n" by simp
  then show ?thesis using show_digits_no_leading_zero by blast
qed

lemma takeWhile_digits:
  "0 \<le> n \<Longrightarrow> number_end rest \<Longrightarrow> takeWhile is_digit (show_digits n @ rest) = show_digits n"
  using show_digits_all_digits [of n]
  by (cases rest) (auto simp add: takeWhile_append number_end_def list_all_iff)

lemma dropWhile_digits:
  "0 \<le> n \<Longrightarrow> number_end rest \<Longrightarrow> dropWhile is_digit (show_digits n @ rest) = rest"
  using show_digits_all_digits [of n]
  by (cases rest) (auto simp add: dropWhile_append number_end_def list_all_iff)

lemma hd_show_digits_not_minus: "0 \<le> n \<Longrightarrow> hd (show_digits n) \<noteq> CHR ''-''"
  using show_digits_all_digits [of n] show_digits_nonempty [of n]
  by (cases "show_digits n") (auto simp add: is_digit_def)

lemma parse_number_show_int:
  assumes "number_end rest"
  shows "parse_number (show_int i @ rest) = Some (JNumber (Num i), rest)"
proof (cases "i < 0")
  case True
  then have n: "0 \<le> - i" by simp
  have "parse_number (CHR ''-'' # show_digits (- i) @ rest) = Some (JNumber (Num i), rest)"
    using assms show_digits_leading_zero [OF n] show_digits_nonempty [of "- i"]
    by (auto simp add: parse_number_def Let_def takeWhile_digits [OF n] dropWhile_digits [OF n]
        dec_val_show_digits [OF n] number_end_def)
  with True show ?thesis by (simp add: show_int_def)
next
  case False
  then have n: "0 \<le> i" by simp
  have h: "hd (show_digits i @ rest) \<noteq> CHR ''-''"
    using hd_show_digits_not_minus [OF n] show_digits_nonempty [of i] by simp
  have "parse_number (show_digits i @ rest) = Some (JNumber (Num i), rest)"
    using assms show_digits_leading_zero [OF n] show_digits_nonempty [of i] h
    by (auto simp add: parse_number_def Let_def takeWhile_digits [OF n] dropWhile_digits [OF n]
        dec_val_show_digits [OF n] number_end_def)
  with False show ?thesis by (simp add: show_int_def)
qed

lemma of_char_int_bounds: "0 \<le> (of_char c :: int) \<and> (of_char c :: int) < 256"
proof -
  have "(of_char c :: int) = int (of_char c)" by (simp only: of_nat_of_char)
  moreover have "(of_char c :: nat) < 256" by simp
  ultimately show ?thesis by simp
qed

lemma of_char_digit: "0 \<le> d \<Longrightarrow> d < 208 \<Longrightarrow> (of_char (char_of (48 + d :: int)) :: int) = 48 + d"
  by simp

lemma hex_val_hex_digit: "0 \<le> d \<Longrightarrow> d < 16 \<Longrightarrow> hex_val (hex_digit d) = Some d"
  by (simp add: hex_val_def hex_digit_def Let_def)

lemma utf8_enc_char: "(of_char c :: int) < 32 \<Longrightarrow> utf8_enc (of_char c) = [c]"
  by (simp add: utf8_enc_def)

lemma hex_val_zero: "hex_val CHR ''0'' = Some 0"
  by (simp add: hex_val_def)

lemma parse_chars_escape:
  "parse_chars (escape_char c @ t) =
     (case parse_chars t of None \<Rightarrow> None | Some (s, r) \<Rightarrow> Some (c # s, r))"
proof -
  have b: "0 \<le> (of_char c :: int)" using of_char_int_bounds by blast
  show ?thesis
  proof (cases "(of_char c :: int) < 32")
    case True
    then have d1: "(of_char c :: int) div 16 < 16" and d2: "0 \<le> (of_char c :: int) div 16"
      and d3: "0 \<le> (of_char c :: int) mod 16" and d4: "(of_char c :: int) mod 16 < 16"
      using b by auto
    show ?thesis using True
      by (simp add: escape_char_def dq_def bs_def unescape_char_def hex_val_zero
          hex_val_hex_digit [OF d2 d1] hex_val_hex_digit [OF d3 d4] utf8_enc_char
          split: option.splits)
  next
    case False
    then show ?thesis
      by (auto simp add: escape_char_def dq_def bs_def unescape_char_def split: option.splits)
  qed
qed

lemma parse_chars_quoted:
  "parse_chars (concat (map escape_char s) @ dq # rest) = Some (s, rest)"
  by (induction s) (simp_all add: parse_chars_escape)

lemma parse_chars_quote: "parse_chars (tl (quote s) @ rest) = Some (s, rest)"
  by (simp add: quote_def parse_chars_quoted)

section \<open>The text of a JSON value parses to that value\<close>

lemma skip_ws_idem: "skip_ws (skip_ws s) = skip_ws s"
  unfolding skip_ws_def by (induction s) auto

lemma skip_ws_Cons: "skip_ws (c # s) = (if is_ws c then skip_ws s else c # s)"
  by (simp add: skip_ws_def)

lemma skip_ws_indent: "skip_ws (indent i @ s) = skip_ws s"
  by (induction i) (simp_all add: indent_def skip_ws_def is_ws_def)

lemma parse_value_ws: "parse_value n (skip_ws s) = parse_value n s"
  by (cases n) (simp_all add: skip_ws_idem)

lemma parse_elems_ws: "parse_elems n acc (skip_ws s) = parse_elems n acc s"
  by (cases n) (simp_all add: parse_value_ws)

lemma parse_members_ws: "parse_members n acc (skip_ws s) = parse_members n acc s"
  by (cases n) (simp_all add: skip_ws_idem)

lemma parse_value_indent: "parse_value n (indent i @ s) = parse_value n s"
  by (metis parse_value_ws skip_ws_indent)

lemma parse_elems_indent: "parse_elems n acc (indent i @ s) = parse_elems n acc s"
  by (metis parse_elems_ws skip_ws_indent)

lemma parse_members_indent: "parse_members n acc (indent i @ s) = parse_members n acc s"
  by (metis parse_members_ws skip_ws_indent)

lemma parse_value_space: "parse_value n (CHR '' '' # s) = parse_value n s"
proof -
  have "skip_ws (CHR '' '' # s) = skip_ws s" by (simp add: skip_ws_def is_ws_def)
  then show ?thesis by (metis parse_value_ws)
qed

lemma show_int_start:
  "\<exists>c t. show_int k = c # t \<and> (c = CHR ''-'' \<or> is_digit c)"
proof (cases "k < 0")
  case True
  then show ?thesis by (simp add: show_int_def)
next
  case False
  then have n: "0 \<le> k" by simp
  obtain c t where ct: "show_digits k = c # t"
    using show_digits_nonempty [of k] by (cases "show_digits k") auto
  with show_digits_all_digits [OF n] have "is_digit c" by simp
  with ct False show ?thesis by (simp add: show_int_def)
qed

lemma ser_start: "\<exists>c t. ser i v = c # t \<and> value_start c"
proof (cases v)
  case (JNumber n)
  show ?thesis
  proof (cases n)
    case (Num k)
    obtain c t where "show_int k = c # t" "c = CHR ''-'' \<or> is_digit c"
      using show_int_start by blast
    then show ?thesis using JNumber Num
      by (auto simp add: value_start_def is_ws_def is_digit_def)
  next
    case NaN
    then show ?thesis using JNumber by (simp add: value_start_def is_ws_def)
  next
    case PosInf
    then show ?thesis using JNumber by (simp add: value_start_def is_ws_def)
  next
    case NegInf
    then show ?thesis using JNumber by (simp add: value_start_def is_ws_def)
  qed
qed (auto simp add: value_start_def is_ws_def quote_def dq_def)

lemma dq_facts: "\<not> is_ws dq" "dq \<noteq> CHR ''{''" "dq \<noteq> CHR ''[''" "dq \<noteq> CHR '']''" "dq \<noteq> CHR ''}''"
  by (simp_all add: dq_def is_ws_def)

lemma ws_facts:
  "\<not> is_ws CHR '':''" "\<not> is_ws CHR '',''" "\<not> is_ws CHR '']''" "\<not> is_ws CHR ''}''"
  "\<not> is_ws CHR ''[''" "\<not> is_ws CHR ''{''" "\<not> is_ws CHR ''n''" "\<not> is_ws CHR ''t''"
  "\<not> is_ws CHR ''f''" "is_ws CHR '' ''" "is_ws CHR ''\<newline>''"
  by (simp_all add: is_ws_def)

lemma number_end_simps:
  "number_end []" "number_end (CHR '','' # s)" "number_end (CHR ''\<newline>'' # s)"
  by (simp_all add: number_end_def is_digit_def)

lemma skip_ws_newline: "skip_ws (CHR ''\<newline>'' # s) = skip_ws s"
  by (simp add: skip_ws_def is_ws_def)

lemma number_start:
  assumes "c = CHR ''-'' \<or> is_digit c"
  shows "\<not> is_ws c" "c \<noteq> CHR ''{''" "c \<noteq> CHR ''[''" "c \<noteq> dq"
    "c \<noteq> CHR ''t''" "c \<noteq> CHR ''f''" "c \<noteq> CHR ''n''"
  using assms by (auto simp add: is_ws_def is_digit_def dq_def)

lemma parse_value_number:
  assumes "number_end rest"
  shows "parse_value (Suc n) (show_int k @ rest) = Some (JNumber (Num k), rest)"
proof -
  obtain c t where ct: "show_int k = c # t" and c: "c = CHR ''-'' \<or> is_digit c"
    using show_int_start by blast
  have "parse_value (Suc n) (c # t @ rest) = parse_number (c # t @ rest)"
    by (simp add: skip_ws_Cons number_start [OF c])
  then have "parse_value (Suc n) (show_int k @ rest) = parse_number (show_int k @ rest)"
    using ct by simp
  then show ?thesis using parse_number_show_int [OF assms] by simp
qed
lemma parse_value_string:
  "parse_value (Suc n) (quote s @ rest) = Some (JString s, rest)"
  by (simp add: quote_def skip_ws_Cons dq_facts parse_chars_quoted)

lemma parse_value_leaf:
  "parse_value (Suc n) (''null'' @ rest) = Some (JNull, rest)"
  "parse_value (Suc n) (''true'' @ rest) = Some (JBool True, rest)"
  "parse_value (Suc n) (''false'' @ rest) = Some (JBool False, rest)"
  by (simp_all add: skip_ws_Cons ws_facts dq_def parse_literal_def)

lemma need_pos: "0 < need v"
  by (cases v) simp_all

lemma parse_elems_ser:
  assumes "\<And>x n rest i. x \<in> set xs \<Longrightarrow> json_value x \<Longrightarrow> need x \<le> n \<Longrightarrow> number_end rest
             \<Longrightarrow> parse_value n (ser i x @ rest) = Some (x, rest)"
    and "xs \<noteq> []" and "list_all json_value xs" and "need_elems xs \<le> n"
  shows "parse_elems n acc (ser_elems i xs @ ''\<newline>'' @ indent j @ '']'' @ rest)
           = Some (JArray (acc @ xs), rest)"
  using assms
proof (induction xs arbitrary: n acc)
  case Nil
  then show ?case by simp
next
  case (Cons x xs)
  from Cons.prems(4) obtain m where n: "n = Suc m" and mx: "need x \<le> m" and ms: "need_elems xs \<le> m"
    by (cases n) auto
  have jx: "json_value x" and jxs: "list_all json_value xs" using Cons.prems(3) by simp_all
  have pv: "\<And>rest'. number_end rest' \<Longrightarrow> parse_value m (indent i @ ser i x @ rest') = Some (x, rest')"
    using Cons.prems(1) [where x = x and n = m and i = i] jx mx by (simp add: parse_value_indent)
  show ?case
  proof (cases "xs = []")
    case True
    have "skip_ws (CHR ''\<newline>'' # indent j @ CHR '']'' # rest) = CHR '']'' # rest"
      by (simp add: skip_ws_newline skip_ws_indent skip_ws_Cons ws_facts)
    then show ?thesis using True n pv [of "CHR ''\<newline>'' # indent j @ CHR '']'' # rest"]
      by (simp add: number_end_simps)
  next
    case False
    let ?T = "ser_elems i xs @ ''\<newline>'' @ indent j @ '']'' @ rest"
    have ih: "parse_elems m (acc @ [x]) ?T = Some (JArray ((acc @ [x]) @ xs), rest)"
      using Cons.IH [where n = m and acc = "acc @ [x]"] Cons.prems(1) False jxs ms by simp
    have "parse_elems m (acc @ [x]) (CHR ''\<newline>'' # ?T) = parse_elems m (acc @ [x]) ?T"
      by (metis parse_elems_ws skip_ws_newline)
    with ih have step: "parse_elems m (acc @ [x]) (CHR ''\<newline>'' # ?T)
        = Some (JArray (acc @ x # xs), rest)" by simp
    have "parse_elems (Suc m) acc (indent i @ ser i x @ CHR '','' # CHR ''\<newline>'' # ?T)
        = Some (JArray (acc @ x # xs), rest)"
      using pv [of "CHR '','' # CHR ''\<newline>'' # ?T"] step
      by (simp add: number_end_simps skip_ws_Cons ws_facts)
    then show ?thesis using False n by simp
  qed
qed

lemma obj_put_fresh: "k \<notin> fst ` set acc \<Longrightarrow> obj_put acc k v = acc @ [(k, v)]"
  by (induction acc) auto

lemma parse_members_ser:
  assumes "\<And>p n rest i. p \<in> set ps \<Longrightarrow> json_value (snd p) \<Longrightarrow> need (snd p) \<le> n \<Longrightarrow> number_end rest
             \<Longrightarrow> parse_value n (ser i (snd p) @ rest) = Some (snd p, rest)"
    and "ps \<noteq> []" and "list_all (\<lambda>p. json_value (snd p)) ps"
    and "distinct (map fst (acc @ ps))" and "need_members ps \<le> n"
  shows "parse_members n acc (ser_members i ps @ ''\<newline>'' @ indent j @ ''}'' @ rest)
           = Some (JObject (acc @ ps), rest)"
  using assms
proof (induction ps arbitrary: n acc)
  case Nil
  then show ?case by simp
next
  case (Cons p ps)
  obtain k v where p: "p = (k, v)" by (cases p)
  from Cons.prems(5) obtain m where n: "n = Suc m" and mx: "need v \<le> m" and ms: "need_members ps \<le> m"
    using p by (cases n) auto
  have jv: "json_value v" and jps: "list_all (\<lambda>p. json_value (snd p)) ps"
    using Cons.prems(3) p by simp_all
  have vu: "v \<noteq> JUndefined" using jv by auto
  have fresh: "k \<notin> fst ` set acc" using Cons.prems(4) p by auto
  have dist: "distinct (map fst ((acc @ [(k, v)]) @ ps))" using Cons.prems(4) p by simp
  have undef: "list_all (\<lambda>p. snd p = JUndefined) ps \<longleftrightarrow> ps = []"
    using jps by (cases ps) auto
  have pv: "\<And>rest'. number_end rest' \<Longrightarrow> parse_value m (CHR '' '' # ser i v @ rest') = Some (v, rest')"
    using Cons.prems(1) [where p = p and n = m and i = i] jv mx p by (simp add: parse_value_space)
  have key: "\<And>t. parse_members (Suc m) acc (indent i @ quote k @ '': '' @ ser i v @ t) =
      (case parse_value m (CHR '' '' # ser i v @ t) of
         None \<Rightarrow> None
       | Some (v', r3) \<Rightarrow>
           (case skip_ws r3 of
              [] \<Rightarrow> None
            | c3 # r4 \<Rightarrow>
                if c3 = CHR '','' then parse_members m (obj_put acc k v') r4
                else if c3 = CHR ''}'' then Some (JObject (obj_put acc k v'), r4)
                else None))"
  proof -
    fix t
    have "parse_members (Suc m) acc (indent i @ quote k @ '': '' @ ser i v @ t)
        = parse_members (Suc m) acc (quote k @ '': '' @ ser i v @ t)"
      by (rule parse_members_indent)
    also have "\<dots> = (case parse_value m (CHR '' '' # ser i v @ t) of
         None \<Rightarrow> None
       | Some (v', r3) \<Rightarrow>
           (case skip_ws r3 of
              [] \<Rightarrow> None
            | c3 # r4 \<Rightarrow>
                if c3 = CHR '','' then parse_members m (obj_put acc k v') r4
                else if c3 = CHR ''}'' then Some (JObject (obj_put acc k v'), r4)
                else None))"
      using parse_chars_quoted [of k "'': '' @ ser i v @ t"]
      by (simp add: quote_def skip_ws_Cons dq_facts ws_facts)
    finally show "parse_members (Suc m) acc (indent i @ quote k @ '': '' @ ser i v @ t) =
      (case parse_value m (CHR '' '' # ser i v @ t) of
         None \<Rightarrow> None
       | Some (v', r3) \<Rightarrow>
           (case skip_ws r3 of
              [] \<Rightarrow> None
            | c3 # r4 \<Rightarrow>
                if c3 = CHR '','' then parse_members m (obj_put acc k v') r4
                else if c3 = CHR ''}'' then Some (JObject (obj_put acc k v'), r4)
                else None))" .
  qed
  show ?case
  proof (cases "ps = []")
    case True
    have "skip_ws (CHR ''\<newline>'' # indent j @ CHR ''}'' # rest) = CHR ''}'' # rest"
      by (simp add: skip_ws_newline skip_ws_indent skip_ws_Cons ws_facts)
    then have "parse_members (Suc m) acc
        (indent i @ quote k @ '': '' @ ser i v @ CHR ''\<newline>'' # indent j @ CHR ''}'' # rest)
        = Some (JObject (acc @ [(k, v)]), rest)"
      using pv [of "CHR ''\<newline>'' # indent j @ CHR ''}'' # rest"]
      by (subst key) (simp add: number_end_simps obj_put_fresh [OF fresh])
    then show ?thesis using True n p vu by simp
  next
    case False
    let ?T = "ser_members i ps @ ''\<newline>'' @ indent j @ ''}'' @ rest"
    have ih: "parse_members m (acc @ [(k, v)]) ?T = Some (JObject ((acc @ [(k, v)]) @ ps), rest)"
      using Cons.IH [where n = m and acc = "acc @ [(k, v)]"] Cons.prems(1) False jps ms dist by simp
    have "parse_members m (acc @ [(k, v)]) (CHR ''\<newline>'' # ?T)
        = parse_members m (acc @ [(k, v)]) ?T"
      by (metis parse_members_ws skip_ws_newline)
    with ih have step: "parse_members m (acc @ [(k, v)]) (CHR ''\<newline>'' # ?T)
        = Some (JObject (acc @ (k, v) # ps), rest)" by simp
    have "parse_members (Suc m) acc
        (indent i @ quote k @ '': '' @ ser i v @ CHR '','' # CHR ''\<newline>'' # ?T)
        = Some (JObject (acc @ (k, v) # ps), rest)"
      using pv [of "CHR '','' # CHR ''\<newline>'' # ?T"] step
      by (subst key) (simp add: number_end_simps skip_ws_Cons ws_facts obj_put_fresh [OF fresh])
    then show ?thesis using False n p vu undef by simp
  qed
qed

lemma parse_value_open_bracket:
  assumes "value_start c"
  shows "parse_value (Suc n) (CHR ''['' # CHR ''\<newline>'' # indent i @ c # u)
           = parse_elems n [] (indent i @ c # u)"
proof -
  have sk: "skip_ws (indent i @ c # u) = c # u"
    using assms by (simp add: skip_ws_indent skip_ws_Cons value_start_def)
  have "parse_value (Suc n) (CHR ''['' # CHR ''\<newline>'' # indent i @ c # u)
      = parse_elems n [] (c # u)"
    using assms by (simp add: skip_ws_Cons ws_facts sk value_start_def)
  then show ?thesis by (simp add: parse_elems_indent)
qed

lemma parse_value_open_brace:
  "parse_value (Suc n) (CHR ''{'' # CHR ''\<newline>'' # indent i @ dq # u)
     = parse_members n [] (indent i @ dq # u)"
proof -
  have sk: "skip_ws (indent i @ dq # u) = dq # u"
    by (simp add: skip_ws_indent skip_ws_Cons dq_facts)
  have "parse_value (Suc n) (CHR ''{'' # CHR ''\<newline>'' # indent i @ dq # u)
      = parse_members n [] (dq # u)"
    by (simp add: skip_ws_Cons ws_facts sk dq_facts)
  then show ?thesis by (simp add: parse_members_indent)
qed

lemma parse_value_array:
  assumes "xs \<noteq> []"
  shows "parse_value (Suc n) (''[\<newline>'' @ ser_elems i xs @ t) = parse_elems n [] (ser_elems i xs @ t)"
proof -
  obtain x xs' where xs: "xs = x # xs'" using assms by (cases xs) auto
  obtain c r where cr: "ser i x = c # r" and c: "value_start c" using ser_start by blast
  obtain u where u: "ser_elems i xs @ t = indent i @ c # u"
    using xs cr by simp
  show ?thesis using parse_value_open_bracket [OF c, of n i u] u by simp
qed

lemma parse_value_object:
  assumes "ps \<noteq> []" and "list_all (\<lambda>p. json_value (snd p)) ps"
  shows "parse_value (Suc n) (''{\<newline>'' @ ser_members i ps @ t) = parse_members n [] (ser_members i ps @ t)"
proof -
  obtain k v ps' where ps: "ps = (k, v) # ps'" using assms(1) by (cases ps) auto
  have vu: "v \<noteq> JUndefined" using assms(2) ps by auto
  obtain u where u: "ser_members i ps @ t = indent i @ dq # u"
    using ps vu by (simp add: quote_def)
  show ?thesis using parse_value_open_brace [of n i u] u by simp
qed

lemma parse_value_ser:
  "json_value v \<Longrightarrow> need v \<le> n \<Longrightarrow> number_end rest
     \<Longrightarrow> parse_value n (ser i v @ rest) = Some (v, rest)"
proof (induction v arbitrary: n rest i)
  case JUndefined
  then show ?case by simp
next
  case JNull
  then obtain m where "n = Suc m" by (cases n) auto
  then show ?case using parse_value_leaf(1) by simp
next
  case (JBool b)
  then obtain m where "n = Suc m" by (cases n) auto
  then show ?case using parse_value_leaf(2,3) by (cases b) simp_all
next
  case (JNumber x)
  then obtain m where n: "n = Suc m" by (cases n) auto
  from JNumber obtain k where "x = Num k" by (cases x) auto
  then show ?case using n parse_value_number [OF JNumber.prems(3)] by simp
next
  case (JString s)
  then obtain m where "n = Suc m" by (cases n) auto
  then show ?case using parse_value_string by simp
next
  case (JArray xs)
  from JArray.prems(2) obtain m where n: "n = Suc m" and m: "need_elems xs \<le> m"
    by (cases n) auto
  show ?case
  proof (cases "xs = []")
    case True
    then show ?thesis using n by (simp add: skip_ws_Cons ws_facts)
  next
    case False
    have "parse_elems m [] (ser_elems (i + 2) xs @ ''\<newline>'' @ indent i @ '']'' @ rest)
        = Some (JArray ([] @ xs), rest)"
      using JArray.IH JArray.prems(1) False m by (intro parse_elems_ser) simp_all
    then show ?thesis using False n parse_value_array [OF False, of m "i + 2"] by simp
  qed
next
  case (JObject ps)
  from JObject.prems(2) obtain m where n: "n = Suc m" and m: "need_members ps \<le> m"
    by (cases n) auto
  have j: "list_all (\<lambda>p. json_value (snd p)) ps" and d: "distinct (map fst ps)"
    using JObject.prems(1) by simp_all
  show ?case
  proof (cases "ps = []")
    case True
    then show ?thesis using n by (simp add: skip_ws_Cons ws_facts)
  next
    case False
    have undef: "\<not> list_all (\<lambda>p. snd p = JUndefined) ps"
      using j False by (cases ps) auto
    have "parse_members m [] (ser_members (i + 2) ps @ ''\<newline>'' @ indent i @ ''}'' @ rest)
        = Some (JObject ([] @ ps), rest)"
    proof (rule parse_members_ser)
      fix p n' rest' i'
      assume a: "p \<in> set ps" "json_value (snd p)" "need (snd p) \<le> n'" "number_end rest'"
      have "snd p \<in> Basic_BNFs.snds p" by (cases p) simp
      then show "parse_value n' (ser i' (snd p) @ rest') = Some (snd p, rest')"
        using JObject.IH [OF a(1)] a(2,3,4) by blast
    qed (use False j d m in simp_all)
    then show ?thesis using False n undef parse_value_object [OF False j, of m "i + 2"] by simp
  qed
qed

lemma need_le_length:
  "json_value v \<longrightarrow> need v \<le> length (ser i v)"
  "list_all json_value xs \<longrightarrow> need_elems xs \<le> length (ser_elems i xs) + 1"
  "list_all (\<lambda>p. json_value (snd p)) ps \<longrightarrow> need_members ps \<le> length (ser_members i ps) + 1"
proof (induction i v and i xs and i ps rule: ser_ser_elems_ser_members.induct)
  case (4 i n)
  then show ?case using show_int_start [of n] by auto
next
  case (8 i s)
  then show ?case by (simp add: quote_def)
next
  case (9 i xs)
  then show ?case by (cases "xs = []") auto
next
  case (10 i ps)
  show ?case
  proof (cases "list_all (\<lambda>p. snd p = JUndefined) ps")
    case True
    show ?thesis
    proof
      assume "json_value (JObject ps)"
      then have "list_all (\<lambda>p. json_value (snd p)) ps" by simp
      with True have "ps = []" by (cases ps) auto
      then show "need (JObject ps) \<le> length (ser i (JObject ps))" by simp
    qed
  next
    case False
    then show ?thesis using 10 by auto
  qed
next
  case (12 i x xs)
  then show ?case by (cases "xs = []") auto
next
  case (14 i p ps)
  show ?case
  proof
    assume a: "list_all (\<lambda>p. json_value (snd p)) (p # ps)"
    then have u: "snd p \<noteq> JUndefined" by auto
    have e: "list_all (\<lambda>p. snd p = JUndefined) ps \<longleftrightarrow> ps = []"
      using a by (cases ps) auto
    show "need_members (p # ps) \<le> length (ser_members i (p # ps)) + 1"
      using a u e 14(2) 14(3) by (cases "ps = []") auto
  qed
qed simp_all

lemma JSON_parse_stringify:
  assumes "json_value v"
  shows "JSON_parse (ser 0 v) = Some v"
proof -
  have "need v \<le> Suc (length (ser 0 v))" using need_le_length(1) [of v 0] assms by simp
  then have "parse_value (Suc (length (ser 0 v))) (ser 0 v @ []) = Some (v, [])"
    using assms by (intro parse_value_ser) (simp_all add: number_end_simps)
  then show ?thesis by (simp add: JSON_parse_def skip_ws_def)
qed

lemma map_fst_obj_put:
  "map fst (obj_put ps k v) = (if k \<in> fst ` set ps then map fst ps else map fst ps @ [k])"
  by (induction ps k v rule: obj_put.induct) auto

lemma set_obj_put: "set (obj_put ps k v) \<subseteq> insert (k, v) (set ps)"
  by (induction ps k v rule: obj_put.induct) auto

lemma json_value_obj_put:
  assumes "json_value (JObject ps)" and "json_value v"
  shows "json_value (JObject (obj_put ps k v))"
proof -
  have "distinct (map fst (obj_put ps k v))"
    using assms(1) by (simp add: map_fst_obj_put)
  moreover have "list_all (\<lambda>p. json_value (snd p)) (obj_put ps k v)"
    using assms set_obj_put [of ps k v] by (auto simp add: list_all_iff)
  ultimately show ?thesis by simp
qed

lemma parse_number_json_value: "parse_number s = Some (v, r) \<Longrightarrow> json_value v"
  by (auto simp add: parse_number_def Let_def split: if_splits)

lemma parse_literal_result: "parse_literal l v0 s = Some (v, r) \<Longrightarrow> v = v0"
  by (auto simp add: parse_literal_def split: if_splits)

lemma parse_value_Suc_cases:
  assumes "parse_value (Suc n) s = Some (v, r)"
  shows "(\<exists>t. parse_members n [] t = Some (v, r)) \<or> (\<exists>t. parse_elems n [] t = Some (v, r))
    \<or> v = JObject [] \<or> v = JArray [] \<or> (\<exists>str. v = JString str) \<or> v = JBool True
    \<or> v = JBool False \<or> v = JNull \<or> (\<exists>t. parse_number t = Some (v, r))"
proof (cases "skip_ws s")
  case Nil
  with assms show ?thesis by simp
next
  case (Cons c t)
  consider "c = CHR ''{''" | "c \<noteq> CHR ''{''" "c = CHR ''[''"
    | "c \<noteq> CHR ''{''" "c \<noteq> CHR ''[''" "c = dq"
    | "c \<noteq> CHR ''{''" "c \<noteq> CHR ''[''" "c \<noteq> dq" by blast
  then show ?thesis
  proof cases
    case 1
    with assms Cons show ?thesis by (cases "skip_ws t") (auto split: if_splits)
  next
    case 2
    with assms Cons show ?thesis by (cases "skip_ws t") (auto split: if_splits)
  next
    case 3
    with assms Cons show ?thesis by (auto split: option.splits)
  next
    case 4
    with assms Cons show ?thesis
      by (auto split: if_splits dest: parse_literal_result)
  qed
qed

lemma parse_elems_Suc_cases:
  assumes "parse_elems (Suc n) xs s = Some (v, r)"
  shows "\<exists>x y. parse_value n s = Some (x, y)
     \<and> ((\<exists>t. parse_elems n (xs @ [x]) t = Some (v, r)) \<or> v = JArray (xs @ [x]))"
  using assms by (auto split: option.splits list.splits if_splits)

lemma parse_members_Suc_cases:
  assumes "parse_members (Suc n) ps s = Some (v, r)"
  shows "\<exists>k x t y. parse_value n t = Some (x, y)
     \<and> ((\<exists>u. parse_members n (obj_put ps k x) u = Some (v, r)) \<or> v = JObject (obj_put ps k x))"
  using assms by (auto split: option.splits list.splits if_splits) blast+

lemma parse_json_value_fuel:
  "(\<forall>s v r. parse_value n s = Some (v, r) \<longrightarrow> json_value v)
   \<and> (\<forall>xs s v r. parse_elems n xs s = Some (v, r) \<longrightarrow> list_all json_value xs \<longrightarrow> json_value v)
   \<and> (\<forall>ps s v r. parse_members n ps s = Some (v, r) \<longrightarrow> json_value (JObject ps)
          \<longrightarrow> json_value v)"
proof (induction n)
  case 0
  show ?case by simp
next
  case (Suc n)
  have pv: "\<And>s v r. parse_value n s = Some (v, r) \<Longrightarrow> json_value v"
    and pe: "\<And>xs s v r. parse_elems n xs s = Some (v, r) \<Longrightarrow> list_all json_value xs \<Longrightarrow> json_value v"
    and pm: "\<And>ps s v r. parse_members n ps s = Some (v, r) \<Longrightarrow> json_value (JObject ps)
          \<Longrightarrow> json_value v"
    using Suc.IH by blast+
  have a: "json_value v" if "parse_value (Suc n) s = Some (v, r)" for s v r
    using parse_value_Suc_cases [OF that] pe [of "[]"] pm [of "[]"] parse_number_json_value
    by auto
  have b: "json_value v" if e: "parse_elems (Suc n) xs s = Some (v, r)" and j: "list_all json_value xs"
    for xs s v r
  proof -
    obtain x y where x: "parse_value n s = Some (x, y)"
      and d: "(\<exists>t. parse_elems n (xs @ [x]) t = Some (v, r)) \<or> v = JArray (xs @ [x])"
      using parse_elems_Suc_cases [OF e] by blast
    have "list_all json_value (xs @ [x])" using pv [OF x] j by simp
    then show ?thesis using d pe by auto
  qed
  have c: "json_value v" if e: "parse_members (Suc n) ps s = Some (v, r)" and j: "json_value (JObject ps)"
    for ps s v r
  proof -
    obtain k x t y where x: "parse_value n t = Some (x, y)"
      and d: "(\<exists>u. parse_members n (obj_put ps k x) u = Some (v, r)) \<or> v = JObject (obj_put ps k x)"
      using parse_members_Suc_cases [OF e] by blast
    have "json_value (JObject (obj_put ps k x))"
      using json_value_obj_put [OF j pv [OF x]] .
    then show ?thesis using d pm by blast
  qed
  show ?case using a b c by blast
qed

lemma JSON_parse_json_value:
  assumes "JSON_parse s = Some v"
  shows "json_value v"
proof -
  obtain r where "parse_value (Suc (length s)) s = Some (v, r)"
    using assms unfolding JSON_parse_def
    by (cases "parse_value (Suc (length s)) s") (auto split: if_splits)
  then show ?thesis using parse_json_value_fuel [of "Suc (length s)"] by blast
qed

section \<open>Reading and updating the record\<close>

lemma readFile_world: "snd (readFile w) = w"
  by (simp add: readFile_def split: option.splits)

lemma loadCredentials_eq:
  "loadCredentials w =
     (Inr (case fault w ReadFile of
             Some m \<Rightarrow> JNull
           | None \<Rightarrow>
               (case cred_file w of
                  None \<Rightarrow> JNull
                | Some t \<Rightarrow> (case JSON_parse t of None \<Rightarrow> JNull | Some v \<Rightarrow> v))), w)"
  by (simp add: loadCredentials_def loadCredentials_try_def readFile_def split: option.splits)

lemma loadCredentials_world: "snd (loadCredentials w) = w"
  by (simp add: loadCredentials_eq)

lemma loadCredentials_Inr: "\<exists>v. loadCredentials w = (Inr v, w)"
  by (simp add: loadCredentials_eq)

lemma get_prop_Number_is_object:
  "get_prop oauth k = Inr (JNumber n) \<Longrightarrow> \<exists>qs. oauth = JObject qs"
  by (cases oauth) auto

lemma get_prop_Object_truthy:
  "get_prop c k = Inr (JObject qs) \<Longrightarrow> truthy c"
  by (cases c) auto

lemma map_of_obj_put: "map_of (obj_put ps k v) = (map_of ps)(k \<mapsto> v)"
  by (induction ps k v rule: obj_put.induct) auto

lemma get_prop_obj_put:
  "get_prop (JObject (obj_put ps k v)) k' = (if k' = k then Inr v else get_prop (JObject ps) k')"
  by (simp add: map_of_obj_put)

lemma get_prop_obj_put_same: "get_prop (JObject (obj_put ps k v)) k = Inr v"
  by (simp add: map_of_obj_put)

lemma get_prop_Object_is_object:
  "get_prop c k = Inr (JObject qs) \<Longrightarrow> \<exists>ps. c = JObject ps"
  by (cases c) auto

lemma assign_oauth_object:
  assumes "get_prop (JObject ps) ''claudeAiOauth'' = Inr (JObject qs)"
  shows "assign_oauth (JObject ps) k v
           = Inr (JObject (obj_put ps ''claudeAiOauth'' (JObject (obj_put qs k v))))"
  using assms by (simp add: assign_oauth_def)

lemma obj_put_twice: "obj_put (obj_put ps k u) k v = obj_put ps k v"
  by (induction ps) auto

lemma assign_oauth_again:
  "assign_oauth (JObject (obj_put ps ''claudeAiOauth'' (JObject qs))) k v
     = Inr (JObject (obj_put ps ''claudeAiOauth'' (JObject (obj_put qs k v))))"
  using assign_oauth_object [OF get_prop_obj_put_same, of ps qs k v]
  by (simp only: obj_put_twice)

text \<open>The record after the three assignments.\<close>

lemma update_credentials_object:
  assumes "get_prop (JObject ps) ''claudeAiOauth'' = Inr (JObject qs)"
    and "get_prop resp ''access_token'' = Inr a"
    and "get_prop resp ''refresh_token'' = Inr r"
    and "get_prop resp ''expires_in'' = Inr x"
  shows "update_credentials (JObject ps) now resp =
     Inr (JObject (obj_put ps ''claudeAiOauth''
       (JObject (obj_put (obj_put (obj_put qs ''accessToken'' a) ''refreshToken'' r)
          ''expiresAt'' (js_add (JNumber (Num now)) x)))))"
  unfolding update_credentials_def
  by (simp only: assms(2,3,4) assign_oauth_object [OF assms(1)] assign_oauth_again sum.case)

lemma refreshAccessToken_requests:
  "requests (snd (refreshAccessToken rt w)) = requests w @ [refresh_request rt]"
  "cred_file (snd (refreshAccessToken rt w)) = cred_file w"
  "writes (snd (refreshAccessToken rt w)) = writes w"
  by (simp_all add: refreshAccessToken_def fetch_def split: fetch_outcome.splits option.splits)

lemma refreshAccessToken_eq:
  "refreshAccessToken rt w =
     (case remote w (refresh_request rt) of
        NetworkFailure m \<Rightarrow> Inl (TypeError m)
      | Response status text \<Rightarrow>
          if \<not> response_ok status
            then Inl (Error (''Failed to refresh token: '' @ show_int status @ '' '' @ text))
          else (case JSON_parse text of
                  None \<Rightarrow> Inl (SyntaxError ''Unexpected token in JSON'')
                | Some v \<Rightarrow> Inr v),
      w\<lparr>requests := requests w @ [refresh_request rt]\<rparr>)"
  by (simp add: refreshAccessToken_def fetch_def split: fetch_outcome.splits option.splits)

lemma saveCredentials_ok:
  assumes "fault w Mkdir = None" and "fault w WriteFile = None" and "c \<noteq> JUndefined"
  shows "saveCredentials c w
     = (Inr (), w\<lparr>dir := True, cred_file := Some (ser 0 c), writes := writes w @ [ser 0 c]\<rparr>)"
  using assms by (simp add: saveCredentials_def mkdir_def writeFile_def JSON_stringify_def)

lemma saveCredentials_cases:
  "(cred_file (snd (saveCredentials c w)) = cred_file w \<and> writes (snd (saveCredentials c w)) = writes w
      \<and> requests (snd (saveCredentials c w)) = requests w)
   \<or> (cred_file (snd (saveCredentials c w)) = Some (ser 0 c)
      \<and> writes (snd (saveCredentials c w)) = writes w @ [ser 0 c]
      \<and> requests (snd (saveCredentials c w)) = requests w)"
  by (simp add: saveCredentials_def mkdir_def writeFile_def JSON_stringify_def
      split: option.splits)

text \<open>The check of line 77 on a loaded record.\<close>

lemma ensureValidToken_expiring:
  assumes "fst (loadCredentials w) = Inr credentials"
    and "truthy credentials"
    and "get_prop credentials ''claudeAiOauth'' = Inr oauth"
    and "get_prop oauth ''expiresAt'' = Inr x"
    and "num_le (js_sub x (JNumber (Num (now_seconds w)))) (Num 300)"
  shows "ensureValidToken w =
     (case ensureValidToken_try credentials (now_seconds w)
             (console_log ''Access token expired or expiring soon, refreshing...'' w) of
        (Inl error, w2) \<Rightarrow> (Inl (Error (''Failed to refresh OAuth token: '' @ message error)), w2)
      | (Inr u, w2) \<Rightarrow> (Inr (), w2))"
proof -
  have "loadCredentials w = (Inr credentials, w)"
    using assms(1) loadCredentials_Inr [of w] by auto
  then show ?thesis using assms(2-5) by (simp add: ensureValidToken_def)
qed

lemma ensureValidToken_try_failure:
  assumes "get_prop credentials ''claudeAiOauth'' = Inr oauth"
    and "get_prop oauth ''refreshToken'' = Inr rt"
    and "fst (refreshAccessToken rt w) = Inl e"
  shows "ensureValidToken_try credentials now w
     = (Inl e, w\<lparr>requests := requests w @ [refresh_request rt]\<rparr>)"
  using assms by (simp add: ensureValidToken_try_def refreshAccessToken_eq)

lemma ensureValidToken_try_success:
  assumes "get_prop credentials ''claudeAiOauth'' = Inr oauth"
    and "get_prop oauth ''refreshToken'' = Inr rt"
    and "fst (refreshAccessToken rt w) = Inr resp"
    and "update_credentials credentials now resp = Inr c'"
    and "c' \<noteq> JUndefined"
    and "fault w Mkdir = None" and "fault w WriteFile = None"
  shows "ensureValidToken_try credentials now w
     = (Inr (), w\<lparr>requests := requests w @ [refresh_request rt], dir := True,
          cred_file := Some (ser 0 c'), writes := writes w @ [ser 0 c'],
          console := console w @ [''Access token refreshed successfully'']\<rparr>)"
proof -
  let ?w1 = "w\<lparr>requests := requests w @ [refresh_request rt]\<rparr>"
  have r: "refreshAccessToken rt w = (Inr resp, ?w1)"
    using assms(3) by (simp add: refreshAccessToken_eq)
  have s: "saveCredentials c' ?w1 = (Inr (), ?w1\<lparr>dir := True, cred_file := Some (ser 0 c'),
      writes := writes ?w1 @ [ser 0 c']\<rparr>)"
    using assms(5,6,7) by (intro saveCredentials_ok) simp_all
  show ?thesis
    using assms(1,2,4) r s by (simp add: ensureValidToken_try_def console_log_def)
qed

lemma loadCredentials_json_value:
  assumes "fst (loadCredentials w) = Inr v"
  shows "json_value v"
  using assms JSON_parse_json_value
  by (auto simp add: loadCredentials_eq split: option.splits)

lemma loadCredentials_object_readable:
  assumes "fst (loadCredentials w) = Inr (JObject ps)"
  shows "fault w ReadFile = None"
  using assms by (auto simp add: loadCredentials_eq split: option.splits)

lemma json_value_member:
  assumes "json_value (JObject ps)" and "get_prop (JObject ps) k = Inr v" and "v \<noteq> JUndefined"
  shows "json_value v"
proof -
  from assms(2,3) have "map_of ps k = Some v" by (auto split: option.splits)
  then have "(k, v) \<in> set ps" by (rule map_of_SomeD)
  with assms(1) show ?thesis by (auto simp add: list_all_iff)
qed

lemma loadCredentials_after_write:
  assumes "cred_file w = Some (ser 0 c)" and "json_value c" and "fault w ReadFile = None"
  shows "fst (loadCredentials w) = Inr c"
  using assms by (simp add: loadCredentials_eq JSON_parse_stringify)

section \<open>Writing the record\<close>

lemma json_value_StoredCredentials: "json_value (StoredCredentials a r (Num e) scopes)"
  by (simp add: StoredCredentials_def list_all_iff)

lemma saveCredentials_then_load:
  assumes "json_value c"
    and "fault w Mkdir = None" and "fault w WriteFile = None" and "fault w ReadFile = None"
  shows "fst (loadCredentials (snd (saveCredentials c w))) = Inr c"
proof -
  have "c \<noteq> JUndefined" using assms(1) by auto
  then have "saveCredentials c w
     = (Inr (), w\<lparr>dir := True, cred_file := Some (ser 0 c), writes := writes w @ [ser 0 c]\<rparr>)"
    using assms(2,3) by (intro saveCredentials_ok) simp_all
  then show ?thesis
    using assms(1,4) by (intro loadCredentials_after_write) simp_all
qed

text \<open>What \<open>setupOAuthCredentials\<close> does when the file system accepts the calls.\<close>

lemma setupOAuthCredentials_ok:
  assumes "fault w Mkdir = None" and "fault w WriteFile = None"
  shows "setupOAuthCredentials c w
     = (Inr (), w\<lparr>dir := True, cred_file := Some (ser 0 (credentialsData c)),
          writes := writes w @ [ser 0 (credentialsData c)],
          console := console w @ [''OAuth credentials written to '' @ credentialsPath w]\<rparr>)"
  using assms
  by (simp add: setupOAuthCredentials_def mkdir_def writeFile_def JSON_stringify_def
      credentialsData_def console_log_def)

lemma credentialsData_StoredCredentials:
  "credentialsData c = StoredCredentials (accessToken c) (refreshToken c) (parseInt (expiresAt c))
     [''user:inference'', ''user:profile'']"
  by (simp add: credentialsData_def StoredCredentials_def)

text \<open>A record whose expiry is not finite is in the file with \<^verbatim>\<open>"expiresAt": null\<close>.\<close>

lemma ser_StoredCredentials_not_finite:
  assumes "\<not> is_finite e"
  shows "ser 0 (StoredCredentials a r e scopes)
     = ser 0 (JObject [(''claudeAiOauth'', JObject
         [(''accessToken'', JString a), (''refreshToken'', JString r), (''expiresAt'', JNull),
          (''scopes'', JArray (map JString scopes))])])"
  using assms by (cases e) (simp_all add: StoredCredentials_def)

lemma JSON_parse_StoredCredentials_not_finite:
  assumes "\<not> is_finite e"
  shows "JSON_parse (ser 0 (StoredCredentials a r e scopes))
     = Some (JObject [(''claudeAiOauth'', JObject
         [(''accessToken'', JString a), (''refreshToken'', JString r), (''expiresAt'', JNull),
          (''scopes'', JArray (map JString scopes))])])"
proof -
  let ?v = "JObject [(''claudeAiOauth'', JObject
         [(''accessToken'', JString a), (''refreshToken'', JString r), (''expiresAt'', JNull),
          (''scopes'', JArray (map JString scopes))])]"
  have "json_value ?v" by (simp add: list_all_iff)
  then have "JSON_parse (ser 0 ?v) = Some ?v" by (rule JSON_parse_stringify)
  then show ?thesis by (simp only: ser_StoredCredentials_not_finite [OF assms])
qed

text \<open>The record that the text written by \<open>setupOAuthCredentials\<close> denotes.\<close>

lemma JSON_parse_credentialsData:
  "JSON_parse (ser 0 (credentialsData c))
     = Some (JObject [(''claudeAiOauth'', JObject
         [(''accessToken'', JString (accessToken c)),
          (''refreshToken'', JString (refreshToken c)),
          (''expiresAt'', case parseInt (expiresAt c) of Num e \<Rightarrow> JNumber (Num e) | _ \<Rightarrow> JNull),
          (''scopes'', JArray [JString ''user:inference'', JString ''user:profile''])])])"
proof (cases "is_finite (parseInt (expiresAt c))")
  case True
  then obtain e where e: "parseInt (expiresAt c) = Num e"
    by (cases "parseInt (expiresAt c)") auto
  have "JSON_parse (ser 0 (StoredCredentials (accessToken c) (refreshToken c) (Num e)
      [''user:inference'', ''user:profile''])) = Some (StoredCredentials (accessToken c)
      (refreshToken c) (Num e) [''user:inference'', ''user:profile''])"
    using json_value_StoredCredentials by (rule JSON_parse_stringify)
  then show ?thesis using e
    by (simp add: credentialsData_StoredCredentials) (simp add: StoredCredentials_def)
next
  case False
  then have "(case parseInt (expiresAt c) of Num e \<Rightarrow> JNumber (Num e) | _ \<Rightarrow> JNull) = JNull"
    by (cases "parseInt (expiresAt c)") auto
  then show ?thesis
    using JSON_parse_StoredCredentials_not_finite [OF False, of "accessToken c" "refreshToken c"
        "[''user:inference'', ''user:profile'']"]
    by (simp add: credentialsData_StoredCredentials)
qed

text \<open>With a record that is still valid nothing happens.\<close>

lemma ensureValidToken_valid:
  assumes "fst (loadCredentials w) = Inr credentials"
    and "get_prop credentials ''claudeAiOauth'' = Inr oauth"
    and "get_prop oauth ''expiresAt'' = Inr (JNumber (Num e))"
    and "e - now_seconds w > 300"
  shows "ensureValidToken w = (Inr (), w)"
proof -
  obtain v where v: "loadCredentials w = (Inr v, w)" using loadCredentials_Inr by blast
  with assms(1) have vc: "v = credentials" by simp
  obtain qs where qs: "oauth = JObject qs" using assms(3) get_prop_Number_is_object by blast
  have t: "truthy credentials" using assms(2) qs get_prop_Object_truthy by blast
  show ?thesis using v vc t assms(2,3,4)
    by (simp add: ensureValidToken_def js_sub_def)
qed

lemma saveCredentials_requests: "requests (snd (saveCredentials c w)) = requests w"
  using saveCredentials_cases [of c w] by blast

lemma ensureValidToken_try_requests:
  assumes "get_prop credentials ''claudeAiOauth'' = Inr oauth"
    and "get_prop oauth ''refreshToken'' = Inr rt"
  shows "requests (snd (ensureValidToken_try credentials now w))
           = requests w @ [refresh_request rt]"
proof (cases "fst (refreshAccessToken rt w)")
  case (Inl e)
  then show ?thesis using ensureValidToken_try_failure [OF assms Inl] by simp
next
  case (Inr resp)
  let ?w1 = "w\<lparr>requests := requests w @ [refresh_request rt]\<rparr>"
  have r: "refreshAccessToken rt w = (Inr resp, ?w1)"
    using Inr by (simp add: refreshAccessToken_eq)
  show ?thesis
  proof (cases "update_credentials credentials now resp")
    case (Inl e)
    then show ?thesis using assms r by (simp add: ensureValidToken_try_def)
  next
    case c: (Inr c')
    have "requests (snd (saveCredentials c' ?w1)) = requests w @ [refresh_request rt]"
      by (simp add: saveCredentials_requests)
    then show ?thesis using assms r c
      by (cases "saveCredentials c' ?w1")
        (auto simp add: ensureValidToken_try_def console_log_def split: sum.splits)
  qed
qed

lemma num_le_expiring_object:
  assumes "get_prop credentials ''claudeAiOauth'' = Inr oauth"
    and "get_prop oauth ''expiresAt'' = Inr x"
    and "num_le (js_sub x (JNumber (Num now))) (Num 300)"
  shows "\<exists>ps qs. credentials = JObject ps \<and> oauth = JObject qs"
proof -
  have "x \<noteq> JUndefined" using assms(3) by (auto simp add: js_sub_def)
  then obtain qs where qs: "oauth = JObject qs" using assms(2) by (cases oauth) auto
  then obtain ps where "credentials = JObject ps"
    using assms(1) get_prop_Object_is_object by blast
  with qs show ?thesis by blast
qed

lemma update_credentials_Inr:
  assumes "update_credentials credentials now resp = Inr c'"
  shows "\<exists>a r x. get_prop resp ''access_token'' = Inr a \<and> get_prop resp ''refresh_token'' = Inr r
     \<and> get_prop resp ''expires_in'' = Inr x"
  using assms by (auto simp add: update_credentials_def split: sum.splits)

lemma refreshAccessToken_Inr:
  assumes "fst (refreshAccessToken rt w) = Inr resp"
  shows "\<exists>status body. remote w (refresh_request rt) = Response status body
     \<and> response_ok status \<and> JSON_parse body = Some resp"
  using assms
  by (auto simp add: refreshAccessToken_eq split: fetch_outcome.splits if_splits option.splits)

text \<open>Every run of the \<^verbatim>\<open>try\<close> block either leaves the file alone or writes, once, a record
  whose access token and expiry both come from the response just received.\<close>

lemma ensureValidToken_try_write:
  assumes "get_prop (JObject ps) ''claudeAiOauth'' = Inr (JObject qs)"
  shows "(cred_file (snd (ensureValidToken_try (JObject ps) now w)) = cred_file w
          \<and> writes (snd (ensureValidToken_try (JObject ps) now w)) = writes w)
     \<or> (\<exists>c' oauth' rt status body resp a x.
           remote w (refresh_request rt) = Response status body
         \<and> JSON_parse body = Some resp
         \<and> get_prop resp ''access_token'' = Inr a
         \<and> get_prop resp ''expires_in'' = Inr x
         \<and> cred_file (snd (ensureValidToken_try (JObject ps) now w)) = Some (ser 0 c')
         \<and> writes (snd (ensureValidToken_try (JObject ps) now w)) = writes w @ [ser 0 c']
         \<and> get_prop c' ''claudeAiOauth'' = Inr oauth'
         \<and> get_prop oauth' ''accessToken'' = Inr a
         \<and> get_prop oauth' ''expiresAt'' = Inr (js_add (JNumber (Num now)) x))"
proof -
  let ?T = "ensureValidToken_try (JObject ps) now w"
  obtain rt where rt: "get_prop (JObject qs) ''refreshToken'' = Inr rt" by simp
  let ?w1 = "w\<lparr>requests := requests w @ [refresh_request rt]\<rparr>"
  show ?thesis
  proof (cases "fst (refreshAccessToken rt w)")
    case (Inl e)
    then show ?thesis using ensureValidToken_try_failure [OF assms rt Inl] by simp
  next
    case (Inr resp)
    have r: "refreshAccessToken rt w = (Inr resp, ?w1)"
      using Inr by (simp add: refreshAccessToken_eq)
    obtain status body where rm: "remote w (refresh_request rt) = Response status body"
      and bd: "JSON_parse body = Some resp"
      using refreshAccessToken_Inr [OF Inr] by blast
    show ?thesis
    proof (cases "update_credentials (JObject ps) now resp")
      case (Inl e)
      then have "?T = (Inl e, ?w1)"
        using assms rt r by (simp add: ensureValidToken_try_def del: get_prop.simps)
      then show ?thesis by simp
    next
      case u: (Inr c')
      obtain a r' x where ga: "get_prop resp ''access_token'' = Inr a"
        and gr: "get_prop resp ''refresh_token'' = Inr r'"
        and gx: "get_prop resp ''expires_in'' = Inr x"
        using update_credentials_Inr [OF u] by blast
      let ?q3 = "obj_put (obj_put (obj_put qs ''accessToken'' a) ''refreshToken'' r')
          ''expiresAt'' (js_add (JNumber (Num now)) x)"
      have c': "c' = JObject (obj_put ps ''claudeAiOauth'' (JObject ?q3))"
        using update_credentials_object [OF assms ga gr gx, of now] u by simp
      have g0: "get_prop c' ''claudeAiOauth'' = Inr (JObject ?q3)"
        unfolding c' by (rule get_prop_obj_put_same)
      have g1: "get_prop (JObject ?q3) ''accessToken'' = Inr a"
        by (simp add: get_prop_obj_put del: get_prop.simps)
      have g3: "get_prop (JObject ?q3) ''expiresAt'' = Inr (js_add (JNumber (Num now)) x)"
        by (simp add: get_prop_obj_put del: get_prop.simps)
      have T: "?T = (case saveCredentials c' ?w1 of
            (Inl e, w2) \<Rightarrow> (Inl e, w2)
          | (Inr u, w2) \<Rightarrow> (Inr (), console_log ''Access token refreshed successfully'' w2))"
        using assms rt r u by (simp add: ensureValidToken_try_def del: get_prop.simps)
      have fields: "cred_file (snd ?T) = cred_file (snd (saveCredentials c' ?w1))"
        "writes (snd ?T) = writes (snd (saveCredentials c' ?w1))"
        by (cases "saveCredentials c' ?w1"; auto simp add: T console_log_def split: sum.splits)+
      from saveCredentials_cases [of c' ?w1] show ?thesis
      proof
        assume "cred_file (snd (saveCredentials c' ?w1)) = cred_file ?w1
          \<and> writes (snd (saveCredentials c' ?w1)) = writes ?w1
          \<and> requests (snd (saveCredentials c' ?w1)) = requests ?w1"
        then show ?thesis using fields by simp
      next
        assume "cred_file (snd (saveCredentials c' ?w1)) = Some (ser 0 c')
          \<and> writes (snd (saveCredentials c' ?w1)) = writes ?w1 @ [ser 0 c']
          \<and> requests (snd (saveCredentials c' ?w1)) = requests ?w1"
        then have "cred_file (snd ?T) = Some (ser 0 c')" "writes (snd ?T) = writes w @ [ser 0 c']"
          using fields by simp_all
        then show ?thesis using rm bd ga gx g0 g1 g3 by blast
      qed
    qed
  qed
qed

lemma setupOAuthCredentials_write:
  "(cred_file (snd (setupOAuthCredentials c w)) = cred_file w
      \<and> writes (snd (setupOAuthCredentials c w)) = writes w)
   \<or> (cred_file (snd (setupOAuthCredentials c w)) = Some (ser 0 (credentialsData c))
      \<and> writes (snd (setupOAuthCredentials c w)) = writes w @ [ser 0 (credentialsData c)])"
  by (simp add: setupOAuthCredentials_def mkdir_def writeFile_def JSON_stringify_def
      credentialsData_def console_log_def split: option.splits)

text \<open>The successful refresh, from the check to the record read back.\<close>

lemma ensureValidToken_refreshed:
  assumes "fst (loadCredentials w) = Inr credentials"
    and "get_prop credentials ''claudeAiOauth'' = Inr oauth"
    and "get_prop oauth ''expiresAt'' = Inr (JNumber (Num e))"
    and "e - now_seconds w \<le> 300"
    and "get_prop oauth ''refreshToken'' = Inr rt"
    and "remote w (refresh_request rt) = Response status body"
    and "response_ok status"
    and "JSON_parse body = Some resp"
    and "get_prop resp ''access_token'' = Inr (JString a)"
    and "get_prop resp ''refresh_token'' = Inr (JString r)"
    and "get_prop resp ''expires_in'' = Inr (JNumber (Num x))"
    and "fault w Mkdir = None"
    and "fault w WriteFile = None"
  shows "fst (ensureValidToken w) = Inr ()
     \<and> requests (snd (ensureValidToken w)) = requests w @ [refresh_request rt]
     \<and> (\<exists>c' oauth'.
           writes (snd (ensureValidToken w)) = writes w @ [ser 0 c']
         \<and> cred_file (snd (ensureValidToken w)) = Some (ser 0 c')
         \<and> fst (loadCredentials (snd (ensureValidToken w))) = Inr c'
         \<and> get_prop c' ''claudeAiOauth'' = Inr oauth'
         \<and> get_prop oauth' ''accessToken'' = Inr (JString a)
         \<and> get_prop oauth' ''refreshToken'' = Inr (JString r)
         \<and> get_prop oauth' ''expiresAt'' = Inr (JNumber (Num (now_seconds w + x))))"
proof -
  let ?now = "now_seconds w"
  let ?w1 = "console_log ''Access token expired or expiring soon, refreshing...'' w"
  obtain qs where qs: "oauth = JObject qs" using assms(3) get_prop_Number_is_object by blast
  obtain ps where ps: "credentials = JObject ps"
    using assms(2) qs get_prop_Object_is_object by blast
  have t: "truthy credentials" using ps by simp
  have le: "num_le (js_sub (JNumber (Num e)) (JNumber (Num ?now))) (Num 300)"
    using assms(4) by (simp add: js_sub_def)
  note unfold = ensureValidToken_expiring [OF assms(1) t assms(2) assms(3) le]
  let ?q3 = "obj_put (obj_put (obj_put qs ''accessToken'' (JString a)) ''refreshToken'' (JString r))
      ''expiresAt'' (JNumber (Num (?now + x)))"
  let ?c = "JObject (obj_put ps ''claudeAiOauth'' (JObject ?q3))"
  have add: "js_add (JNumber (Num ?now)) (JNumber (Num x)) = JNumber (Num (?now + x))"
    by (simp add: js_add_def)
  have upd: "update_credentials credentials ?now resp = Inr ?c"
    using update_credentials_object [of ps qs resp "JString a" "JString r" "JNumber (Num x)" ?now]
      assms(2,9,10,11) ps qs add by simp
  have rf: "fst (refreshAccessToken rt ?w1) = Inr resp"
    using assms(6,7,8) by (simp add: refreshAccessToken_eq console_log_def)
  have faults: "fault ?w1 Mkdir = None" "fault ?w1 WriteFile = None"
    using assms(12,13) by (simp_all add: console_log_def)
  have "ensureValidToken_try credentials ?now ?w1
     = (Inr (), ?w1\<lparr>requests := requests ?w1 @ [refresh_request rt], dir := True,
          cred_file := Some (ser 0 ?c), writes := writes ?w1 @ [ser 0 ?c],
          console := console ?w1 @ [''Access token refreshed successfully'']\<rparr>)"
    using upd rf faults
    by (intro ensureValidToken_try_success [OF assms(2) assms(5)]) simp_all
  then have res: "ensureValidToken w
     = (Inr (), w\<lparr>requests := requests w @ [refresh_request rt], dir := True,
          cred_file := Some (ser 0 ?c), writes := writes w @ [ser 0 ?c],
          console := console w @ [''Access token expired or expiring soon, refreshing...'',
            ''Access token refreshed successfully'']\<rparr>)"
    by (simp add: unfold console_log_def)
  have jc: "json_value credentials" using assms(1) by (rule loadCredentials_json_value)
  have jq: "json_value (JObject qs)"
    using json_value_member [of ps "''claudeAiOauth''" "JObject qs"] jc ps qs assms(2) by simp
  have q1: "json_value (JObject (obj_put qs ''accessToken'' (JString a)))"
    by (rule json_value_obj_put [OF jq]) simp
  have q2: "json_value (JObject (obj_put (obj_put qs ''accessToken'' (JString a))
      ''refreshToken'' (JString r)))"
    by (rule json_value_obj_put [OF q1]) simp
  have q3: "json_value (JObject ?q3)"
    by (rule json_value_obj_put [OF q2]) simp
  have jp: "json_value (JObject ps)" using jc ps by simp
  have j: "json_value ?c"
    using jp q3 by (rule json_value_obj_put)
  have rd: "fault w ReadFile = None"
    using assms(1) ps loadCredentials_object_readable by blast
  have ld: "fst (loadCredentials (snd (ensureValidToken w))) = Inr ?c"
    using j rd by (intro loadCredentials_after_write) (simp_all add: res)
  have g0: "get_prop ?c ''claudeAiOauth'' = Inr (JObject ?q3)"
    by (rule get_prop_obj_put_same)
  have g1: "get_prop (JObject ?q3) ''accessToken'' = Inr (JString a)"
    by (simp add: get_prop_obj_put del: get_prop.simps)
  have g2: "get_prop (JObject ?q3) ''refreshToken'' = Inr (JString r)"
    by (simp add: get_prop_obj_put del: get_prop.simps)
  have g3: "get_prop (JObject ?q3) ''expiresAt'' = Inr (JNumber (Num (?now + x)))"
    by (simp add: get_prop_obj_put del: get_prop.simps)
  have "writes (snd (ensureValidToken w)) = writes w @ [ser 0 ?c]
      \<and> cred_file (snd (ensureValidToken w)) = Some (ser 0 ?c)"
    by (simp add: res)
  then have ex: "\<exists>c' oauth'.
           writes (snd (ensureValidToken w)) = writes w @ [ser 0 c']
         \<and> cred_file (snd (ensureValidToken w)) = Some (ser 0 c')
         \<and> fst (loadCredentials (snd (ensureValidToken w))) = Inr c'
         \<and> get_prop c' ''claudeAiOauth'' = Inr oauth'
         \<and> get_prop oauth' ''accessToken'' = Inr (JString a)
         \<and> get_prop oauth' ''refreshToken'' = Inr (JString r)
         \<and> get_prop oauth' ''expiresAt'' = Inr (JNumber (Num (now_seconds w + x)))"
    using ld g0 g1 g2 g3 by blast
  have "fst (ensureValidToken w) = Inr ()"
    "requests (snd (ensureValidToken w)) = requests w @ [refresh_request rt]"
    by (simp_all add: res)
  with ex show ?thesis by blast
qed

lemma saveCredentials_then_load_not_finite:
  assumes "\<not> is_finite e"
    and "fault w Mkdir = None" and "fault w WriteFile = None" and "fault w ReadFile = None"
  shows "fst (loadCredentials (snd (saveCredentials (StoredCredentials a r e scopes) w)))
     = Inr (JObject [(''claudeAiOauth'', JObject
         [(''accessToken'', JString a), (''refreshToken'', JString r), (''expiresAt'', JNull),
          (''scopes'', JArray (map JString scopes))])])"
proof -
  have "StoredCredentials a r e scopes \<noteq> JUndefined" by (simp add: StoredCredentials_def)
  then have "saveCredentials (StoredCredentials a r e scopes) w
     = (Inr (), w\<lparr>dir := True, cred_file := Some (ser 0 (StoredCredentials a r e scopes)),
          writes := writes w @ [ser 0 (StoredCredentials a r e scopes)]\<rparr>)"
    using assms(2,3) by (intro saveCredentials_ok) simp_all
  then show ?thesis
    using assms(4) JSON_parse_StoredCredentials_not_finite [OF assms(1), of a r scopes]
    by (simp add: loadCredentials_eq)
qed

lemma not_finite_record_differs:
  "JObject [(''claudeAiOauth'', JObject
         [(''accessToken'', JString a), (''refreshToken'', JString r), (''expiresAt'', JNull),
          (''scopes'', JArray (map JString scopes))])] \<noteq> StoredCredentials a r e scopes"
  by (simp add: StoredCredentials_def)

section \<open>The claims\<close>

text \<open>
  C1. When the stored record has \<open>expiresAt - now \<le> 300\<close>, \<open>ensureValidToken\<close> sends
  exactly one request, the refresh request with the record's refresh token, whatever the
  endpoint does. When the endpoint answers with a success status and a body holding
  \<open>access_token\<close>, \<open>refresh_token\<close> and \<open>expires_in\<close>, and the file can be written,
  the call returns normally, the updated record is written once to the file, and
  the record then read from the file has the response's access token, the response's
  refresh token, and \<open>expiresAt = now + expires_in\<close>: none of the three is kept from the
  old record.
\<close>

theorem ensureValidToken_refresh_success:
  assumes "fst (loadCredentials w) = Inr credentials"
    and "get_prop credentials ''claudeAiOauth'' = Inr oauth"
    and "get_prop oauth ''expiresAt'' = Inr (JNumber (Num e))"
    and "e - now_seconds w \<le> 300"
    and "get_prop oauth ''refreshToken'' = Inr rt"
  shows "requests (snd (ensureValidToken w)) = requests w @ [refresh_request rt]
     \<and> (remote w (refresh_request rt) = Response status body
          \<and> response_ok status
          \<and> JSON_parse body = Some resp
          \<and> get_prop resp ''access_token'' = Inr (JString a)
          \<and> get_prop resp ''refresh_token'' = Inr (JString r)
          \<and> get_prop resp ''expires_in'' = Inr (JNumber (Num x))
          \<and> fault w Mkdir = None
          \<and> fault w WriteFile = None
        \<longrightarrow>
          fst (ensureValidToken w) = Inr ()
          \<and> (\<exists>c' oauth'.
                writes (snd (ensureValidToken w)) = writes w @ [ser 0 c']
              \<and> cred_file (snd (ensureValidToken w)) = Some (ser 0 c')
              \<and> fst (loadCredentials (snd (ensureValidToken w))) = Inr c'
              \<and> get_prop c' ''claudeAiOauth'' = Inr oauth'
              \<and> get_prop oauth' ''accessToken'' = Inr (JString a)
              \<and> get_prop oauth' ''refreshToken'' = Inr (JString r)
              \<and> get_prop oauth' ''expiresAt'' = Inr (JNumber (Num (now_seconds w + x)))))"
proof -
  obtain qs where qs: "oauth = JObject qs" using assms(3) get_prop_Number_is_object by blast
  have t: "truthy credentials" using assms(2) qs get_prop_Object_truthy by blast
  have le: "num_le (js_sub (JNumber (Num e)) (JNumber (Num (now_seconds w)))) (Num 300)"
    using assms(4) by (simp add: js_sub_def)
  note unfold = ensureValidToken_expiring [OF assms(1) t assms(2) assms(3) le]
  let ?w1 = "console_log ''Access token expired or expiring soon, refreshing...'' w"
  have "requests (snd (ensureValidToken_try credentials (now_seconds w) ?w1))
      = requests ?w1 @ [refresh_request rt]"
    using assms(2,5) by (rule ensureValidToken_try_requests)
  then have one: "requests (snd (ensureValidToken w)) = requests w @ [refresh_request rt]"
    by (cases "ensureValidToken_try credentials (now_seconds w) ?w1")
      (auto simp add: unfold console_log_def split: sum.splits)
  have ok: "fst (ensureValidToken w) = Inr ()
          \<and> (\<exists>c' oauth'.
                writes (snd (ensureValidToken w)) = writes w @ [ser 0 c']
              \<and> cred_file (snd (ensureValidToken w)) = Some (ser 0 c')
              \<and> fst (loadCredentials (snd (ensureValidToken w))) = Inr c'
              \<and> get_prop c' ''claudeAiOauth'' = Inr oauth'
              \<and> get_prop oauth' ''accessToken'' = Inr (JString a)
              \<and> get_prop oauth' ''refreshToken'' = Inr (JString r)
              \<and> get_prop oauth' ''expiresAt'' = Inr (JNumber (Num (now_seconds w + x))))"
    if h: "remote w (refresh_request rt) = Response status body" "response_ok status"
      "JSON_parse body = Some resp" "get_prop resp ''access_token'' = Inr (JString a)"
      "get_prop resp ''refresh_token'' = Inr (JString r)"
      "get_prop resp ''expires_in'' = Inr (JNumber (Num x))"
      "fault w Mkdir = None" "fault w WriteFile = None"
  proof -
    from ensureValidToken_refreshed [OF assms h]
    obtain c' oauth' where r: "fst (ensureValidToken w) = Inr ()"
      "writes (snd (ensureValidToken w)) = writes w @ [ser 0 c']"
      "cred_file (snd (ensureValidToken w)) = Some (ser 0 c')"
      "fst (loadCredentials (snd (ensureValidToken w))) = Inr c'"
      "get_prop c' ''claudeAiOauth'' = Inr oauth'"
      "get_prop oauth' ''accessToken'' = Inr (JString a)"
      "get_prop oauth' ''refreshToken'' = Inr (JString r)"
      "get_prop oauth' ''expiresAt'' = Inr (JNumber (Num (now_seconds w + x)))"
      by blast
    from r show ?thesis by blast
  qed
  from one ok show ?thesis by blast
qed

theorem ensureValidToken_refresh_success_witness:
  "fst (loadCredentials stored_world) = Inr example_record
   \<and> 1700000100 - now_seconds stored_world \<le> 300
   \<and> remote stored_world (refresh_request (JString ''R1'')) = Response 200 token_response
   \<and> response_ok 200
   \<and> JSON_parse token_response = Some (JObject [(''access_token'', JString ''A2''),
         (''refresh_token'', JString ''R2''), (''expires_in'', JNumber (Num 3600))])
   \<and> fault stored_world Mkdir = None \<and> fault stored_world WriteFile = None
   \<and> fst (ensureValidToken stored_world) = Inr ()
   \<and> requests (snd (ensureValidToken stored_world))
       = requests stored_world @ [refresh_request (JString ''R1'')]
   \<and> (\<exists>c' oauth'.
           writes (snd (ensureValidToken stored_world)) = writes stored_world @ [ser 0 c']
         \<and> cred_file (snd (ensureValidToken stored_world)) = Some (ser 0 c')
         \<and> fst (loadCredentials (snd (ensureValidToken stored_world))) = Inr c'
         \<and> get_prop c' ''claudeAiOauth'' = Inr oauth'
         \<and> get_prop oauth' ''accessToken'' = Inr (JString ''A2'')
         \<and> get_prop oauth' ''refreshToken'' = Inr (JString ''R2'')
         \<and> get_prop oauth' ''expiresAt'' = Inr (JNumber (Num (now_seconds stored_world + 3600))))"
proof -
  let ?oauth = "JObject [(''accessToken'', JString ''A1''), (''refreshToken'', JString ''R1''),
           (''expiresAt'', JNumber (Num 1700000100)),
           (''scopes'', JArray [JString ''user:inference'', JString ''user:profile''])]"
  let ?resp = "JObject [(''access_token'', JString ''A2''),
         (''refresh_token'', JString ''R2''), (''expires_in'', JNumber (Num 3600))]"
  have p: "JSON_parse (ser 0 example_record) = Some example_record"
    by code_simp
  have h1: "fst (loadCredentials stored_world) = Inr example_record"
    using p by (simp add: loadCredentials_eq stored_world_def empty_world_def no_fault_def)
  have h2: "get_prop example_record ''claudeAiOauth'' = Inr ?oauth"
    by (simp add: example_record_def StoredCredentials_def)
  have h3: "get_prop ?oauth ''expiresAt'' = Inr (JNumber (Num 1700000100))"
    by simp
  have h4: "1700000100 - now_seconds stored_world \<le> 300"
    by (simp add: now_seconds_def stored_world_def empty_world_def)
  have h5: "get_prop ?oauth ''refreshToken'' = Inr (JString ''R1'')"
    by simp
  have h6: "remote stored_world (refresh_request (JString ''R1'')) = Response 200 token_response"
    by (simp add: stored_world_def empty_world_def endpoint_ok_def)
  have h7: "response_ok 200"
    by (simp add: response_ok_def)
  have h8: "JSON_parse token_response = Some ?resp"
    by code_simp
  have h9: "get_prop ?resp ''access_token'' = Inr (JString ''A2'')"
    and h10: "get_prop ?resp ''refresh_token'' = Inr (JString ''R2'')"
    and h11: "get_prop ?resp ''expires_in'' = Inr (JNumber (Num 3600))"
    by simp_all
  have h12: "fault stored_world Mkdir = None" and h13: "fault stored_world WriteFile = None"
    by (simp_all add: stored_world_def empty_world_def no_fault_def)
  show ?thesis
    using h1 h4 h6 h7 h8 h9 h10 h11 h12 h13
      ensureValidToken_refresh_success [OF h1 h2 h3 h4 h5, of 200 token_response ?resp
        "''A2''" "''R2''" 3600]
    by blast
qed

text \<open>
  C2. When the stored record has \<open>expiresAt - now > 300\<close>, \<open>ensureValidToken\<close> returns
  normally and the world after the call is the world before it: no request is sent and
  the credential file is neither written nor changed.
\<close>

theorem ensureValidToken_still_valid:
  assumes "fst (loadCredentials w) = Inr credentials"
    and "get_prop credentials ''claudeAiOauth'' = Inr oauth"
    and "get_prop oauth ''expiresAt'' = Inr (JNumber (Num e))"
    and "e - now_seconds w > 300"
  shows "ensureValidToken w = (Inr (), w)"
proof -
  obtain v where v: "loadCredentials w = (Inr v, w)" using loadCredentials_Inr by blast
  with assms(1) have vc: "v = credentials" by simp
  obtain qs where qs: "oauth = JObject qs" using assms(3) get_prop_Number_is_object by blast
  have t: "truthy credentials" using assms(2) qs get_prop_Object_truthy by blast
  show ?thesis using v vc t assms(2,3,4)
    by (simp add: ensureValidToken_def js_sub_def)
qed

theorem ensureValidToken_still_valid_witness:
  "fst (loadCredentials valid_world) = Inr example_record
   \<and> get_prop example_record ''claudeAiOauth''
       = Inr (JObject [(''accessToken'', JString ''A1''), (''refreshToken'', JString ''R1''),
           (''expiresAt'', JNumber (Num 1700000100)),
           (''scopes'', JArray [JString ''user:inference'', JString ''user:profile''])])
   \<and> 1700000100 - now_seconds valid_world > 300
   \<and> ensureValidToken valid_world = (Inr (), valid_world)"
proof -
  have p: "JSON_parse (ser 0 example_record) = Some example_record"
    by code_simp
  have h1: "fst (loadCredentials valid_world) = Inr example_record"
    using p by (simp add: loadCredentials_eq valid_world_def stored_world_def empty_world_def
        no_fault_def)
  have h2: "get_prop example_record ''claudeAiOauth''
       = Inr (JObject [(''accessToken'', JString ''A1''), (''refreshToken'', JString ''R1''),
           (''expiresAt'', JNumber (Num 1700000100)),
           (''scopes'', JArray [JString ''user:inference'', JString ''user:profile''])])"
    by (simp add: example_record_def StoredCredentials_def)
  have h3: "get_prop (JObject [(''accessToken'', JString ''A1''), (''refreshToken'', JString ''R1''),
           (''expiresAt'', JNumber (Num 1700000100)),
           (''scopes'', JArray [JString ''user:inference'', JString ''user:profile''])])
         ''expiresAt'' = Inr (JNumber (Num 1700000100))"
    by simp
  have h4: "1700000100 - now_seconds valid_world > 300"
    by (simp add: now_seconds_def valid_world_def stored_world_def empty_world_def)
  show ?thesis using h1 h2 h4 ensureValidToken_still_valid [OF h1 h2 h3 h4] by simp
qed

text \<open>
  C3. When the record is expiring and the refresh exchange fails, by a transport exception
  or by a response whose status is not a success, \<open>ensureValidToken\<close> rejects with an
  error whose message holds the underlying message, respectively the status and the body
  of the response. The request was sent once, and apart from the log of requests and the
  console the world is unchanged: the credential file is as before and nothing was written.
\<close>

theorem ensureValidToken_refresh_failure:
  assumes "fst (loadCredentials w) = Inr credentials"
    and "get_prop credentials ''claudeAiOauth'' = Inr oauth"
    and "get_prop oauth ''expiresAt'' = Inr (JNumber (Num e))"
    and "e - now_seconds w \<le> 300"
    and "get_prop oauth ''refreshToken'' = Inr rt"
  shows "(remote w (refresh_request rt) = NetworkFailure m \<longrightarrow>
            ensureValidToken w =
              (Inl (Error (''Failed to refresh OAuth token: '' @ m)),
               w\<lparr>requests := requests w @ [refresh_request rt],
                 console := console w @ [''Access token expired or expiring soon, refreshing...'']\<rparr>))
       \<and> (remote w (refresh_request rt) = Response status body \<and> \<not> response_ok status \<longrightarrow>
            ensureValidToken w =
              (Inl (Error (''Failed to refresh OAuth token: '' @ ''Failed to refresh token: ''
                       @ show_int status @ '' '' @ body)),
               w\<lparr>requests := requests w @ [refresh_request rt],
                 console := console w @ [''Access token expired or expiring soon, refreshing...'']\<rparr>))"
proof -
  let ?w1 = "console_log ''Access token expired or expiring soon, refreshing...'' w"
  obtain qs where qs: "oauth = JObject qs" using assms(3) get_prop_Number_is_object by blast
  have t: "truthy credentials" using assms(2) qs get_prop_Object_truthy by blast
  have le: "num_le (js_sub (JNumber (Num e)) (JNumber (Num (now_seconds w)))) (Num 300)"
    using assms(4) by (simp add: js_sub_def)
  note unfold = ensureValidToken_expiring [OF assms(1) t assms(2) assms(3) le]
  have r: "remote ?w1 = remote w" "requests ?w1 = requests w"
    by (simp_all add: console_log_def)
  have a: "ensureValidToken w =
      (Inl (Error (''Failed to refresh OAuth token: '' @ message err)),
       w\<lparr>requests := requests w @ [refresh_request rt],
         console := console w @ [''Access token expired or expiring soon, refreshing...'']\<rparr>)"
    if f: "fst (refreshAccessToken rt ?w1) = Inl err" for err
    using ensureValidToken_try_failure [OF assms(2) assms(5) f, of "now_seconds w"]
    by (simp add: unfold console_log_def)
  have n: "fst (refreshAccessToken rt ?w1) = Inl (TypeError m)"
    if "remote w (refresh_request rt) = NetworkFailure m"
    using that by (simp add: refreshAccessToken_eq r)
  have s: "fst (refreshAccessToken rt ?w1)
      = Inl (Error (''Failed to refresh token: '' @ show_int status @ '' '' @ body))"
    if "remote w (refresh_request rt) = Response status body" "\<not> response_ok status"
    using that by (simp add: refreshAccessToken_eq r)
  show ?thesis using a [OF n] a [OF s] by simp
qed

theorem ensureValidToken_refresh_failure_witness:
  "fst (loadCredentials unauthorized_world) = Inr example_record
   \<and> 1700000100 - now_seconds unauthorized_world \<le> 300
   \<and> remote unauthorized_world (refresh_request (JString ''R1'')) = Response 401 ''unauthorized''
   \<and> \<not> response_ok 401
   \<and> ensureValidToken unauthorized_world =
       (Inl (Error ''Failed to refresh OAuth token: Failed to refresh token: 401 unauthorized''),
        unauthorized_world
          \<lparr>requests := requests unauthorized_world @ [refresh_request (JString ''R1'')],
            console := console unauthorized_world
               @ [''Access token expired or expiring soon, refreshing...'']\<rparr>)"
proof -
  let ?oauth = "JObject [(''accessToken'', JString ''A1''), (''refreshToken'', JString ''R1''),
           (''expiresAt'', JNumber (Num 1700000100)),
           (''scopes'', JArray [JString ''user:inference'', JString ''user:profile''])]"
  have p: "JSON_parse (ser 0 example_record) = Some example_record"
    by code_simp
  have h1: "fst (loadCredentials unauthorized_world) = Inr example_record"
    using p by (simp add: loadCredentials_eq unauthorized_world_def stored_world_def
        empty_world_def no_fault_def)
  have h2: "get_prop example_record ''claudeAiOauth'' = Inr ?oauth"
    by (simp add: example_record_def StoredCredentials_def)
  have h3: "get_prop ?oauth ''expiresAt'' = Inr (JNumber (Num 1700000100))"
    by simp
  have h4: "1700000100 - now_seconds unauthorized_world \<le> 300"
    by (simp add: now_seconds_def unauthorized_world_def stored_world_def empty_world_def)
  have h5: "get_prop ?oauth ''refreshToken'' = Inr (JString ''R1'')"
    by simp
  have h6: "remote unauthorized_world (refresh_request (JString ''R1''))
      = Response 401 ''unauthorized''"
    by (simp add: unauthorized_world_def endpoint_401_def)
  have h7: "\<not> response_ok 401"
    by (simp add: response_ok_def)
  have s: "show_int 401 = ''401''"
    by code_simp
  show ?thesis
    using h1 h4 h6 h7 s
      ensureValidToken_refresh_failure [OF h1 h2 h3 h4 h5, of "''''" 401 "''unauthorized''"]
    by simp
qed

text \<open>
  C4. \<open>loadCredentials\<close> never throws and never changes anything: it returns the value
  parsed from the file, and \<^verbatim>\<open>null\<close> (the absent result) when the read fails, when there
  is no file, and when the text does not parse.
\<close>

theorem loadCredentials_absent_or_parsed:
  "loadCredentials w =
     (Inr (case fault w ReadFile of
             Some m \<Rightarrow> JNull
           | None \<Rightarrow>
               (case cred_file w of
                  None \<Rightarrow> JNull
                | Some t \<Rightarrow> (case JSON_parse t of None \<Rightarrow> JNull | Some v \<Rightarrow> v))), w)"
  by (simp add: loadCredentials_def loadCredentials_try_def readFile_def split: option.splits)

theorem loadCredentials_absent_or_parsed_witness:
  "loadCredentials empty_world = (Inr JNull, empty_world)
   \<and> loadCredentials stored_world = (Inr example_record, stored_world)"
proof -
  have "fault empty_world ReadFile = None" "cred_file empty_world = None"
    by (simp_all add: empty_world_def no_fault_def)
  then have a: "loadCredentials empty_world = (Inr JNull, empty_world)"
    using loadCredentials_absent_or_parsed [of empty_world] by simp
  have "fault stored_world ReadFile = None" "cred_file stored_world = Some (ser 0 example_record)"
    by (simp_all add: stored_world_def empty_world_def no_fault_def)
  moreover have "JSON_parse (ser 0 example_record) = Some example_record"
    by code_simp
  ultimately have "loadCredentials stored_world = (Inr example_record, stored_world)"
    using loadCredentials_absent_or_parsed [of stored_world] by simp
  with a show ?thesis by simp
qed

text \<open>
  C5. When \<open>loadCredentials\<close> returns the absent result, \<open>ensureValidToken\<close> fails with
  the error "No OAuth credentials found" and leaves the world as it was: no request is
  sent, nothing is written, nothing is tried again.
\<close>

theorem ensureValidToken_no_credentials:
  assumes "fst (loadCredentials w) = Inr JNull"
  shows "ensureValidToken w
           = (Inl (Error ''No OAuth credentials found. Please set up OAuth first.''), w)"
proof -
  obtain v where v: "loadCredentials w = (Inr v, w)" using loadCredentials_Inr by blast
  with assms have "v = JNull" by simp
  with v show ?thesis by (simp add: ensureValidToken_def)
qed

theorem ensureValidToken_no_credentials_witness:
  "fst (loadCredentials empty_world) = Inr JNull
   \<and> ensureValidToken empty_world
       = (Inl (Error ''No OAuth credentials found. Please set up OAuth first.''), empty_world)"
proof -
  have h: "fst (loadCredentials empty_world) = Inr JNull"
    by (simp add: loadCredentials_eq empty_world_def no_fault_def)
  show ?thesis using h ensureValidToken_no_credentials [OF h] by simp
qed

text \<open>
  C6. Counterexample: a record whose \<open>expiresAt\<close> is \<^verbatim>\<open>NaN\<close>, and one whose
  \<open>expiresAt\<close> is \<^verbatim>\<open>Infinity\<close>, are written with \<^verbatim>\<open>"expiresAt": null\<close>, so what
  \<open>loadCredentials\<close> returns after \<open>saveCredentials\<close> is not the record that was saved.
\<close>

theorem save_load_not_finite_differs:
  "fst (loadCredentials (snd (saveCredentials nan_record empty_world))) \<noteq> Inr nan_record
   \<and> fst (loadCredentials (snd (saveCredentials inf_record empty_world))) \<noteq> Inr inf_record"
proof -
  have f: "fault empty_world Mkdir = None" "fault empty_world WriteFile = None"
    "fault empty_world ReadFile = None"
    by (simp_all add: empty_world_def no_fault_def)
  have n: "\<not> is_finite NaN" and i: "\<not> is_finite PosInf" by simp_all
  show ?thesis
    unfolding nan_record_def inf_record_def
    by (simp only: saveCredentials_then_load_not_finite [OF n f]
        saveCredentials_then_load_not_finite [OF i f])
      (simp add: StoredCredentials_def)
qed

text \<open>
  C6, amended. For every credential record whose \<open>expiresAt\<close> is a finite number,
  \<open>saveCredentials\<close> followed by \<open>loadCredentials\<close> returns the record that was saved,
  when the file system accepts the three calls. For a record whose \<open>expiresAt\<close> is
  \<^verbatim>\<open>NaN\<close>, \<^verbatim>\<open>Infinity\<close> or \<^verbatim>\<open>-Infinity\<close> it returns the record with \<open>expiresAt\<close>
  \<^verbatim>\<open>null\<close>, which is another record. (The finite numbers here are the integers; negative
  zero, which is written as \<^verbatim>\<open>0\<close>, is not among them.)
\<close>

theorem save_load_roundtrip:
  assumes "fault w Mkdir = None" and "fault w WriteFile = None" and "fault w ReadFile = None"
  shows "(is_finite e \<longrightarrow>
            fst (loadCredentials (snd (saveCredentials (StoredCredentials a r e scopes) w)))
              = Inr (StoredCredentials a r e scopes))
     \<and> (\<not> is_finite e \<longrightarrow>
            fst (loadCredentials (snd (saveCredentials (StoredCredentials a r e scopes) w)))
              = Inr (JObject [(''claudeAiOauth'', JObject
                  [(''accessToken'', JString a), (''refreshToken'', JString r),
                   (''expiresAt'', JNull), (''scopes'', JArray (map JString scopes))])])
          \<and> fst (loadCredentials (snd (saveCredentials (StoredCredentials a r e scopes) w)))
              \<noteq> Inr (StoredCredentials a r e scopes))"
proof (cases "is_finite e")
  case True
  then obtain n where "e = Num n" by (cases e) auto
  then have "json_value (StoredCredentials a r e scopes)"
    by (simp add: json_value_StoredCredentials)
  then have "fst (loadCredentials (snd (saveCredentials (StoredCredentials a r e scopes) w)))
      = Inr (StoredCredentials a r e scopes)"
    using assms by (rule saveCredentials_then_load)
  with True show ?thesis by simp
next
  case False
  show ?thesis
    using False not_finite_record_differs [of a r scopes e]
    by (simp add: saveCredentials_then_load_not_finite [OF False assms])
qed

theorem save_load_roundtrip_witness:
  "fault empty_world Mkdir = None \<and> fault empty_world WriteFile = None
   \<and> fault empty_world ReadFile = None
   \<and> is_finite (Num 1700000100)
   \<and> fst (loadCredentials (snd (saveCredentials example_record empty_world))) = Inr example_record
   \<and> \<not> is_finite PosInf
   \<and> fst (loadCredentials (snd (saveCredentials inf_record empty_world)))
       = Inr (JObject [(''claudeAiOauth'', JObject
           [(''accessToken'', JString ''A1''), (''refreshToken'', JString ''R1''),
            (''expiresAt'', JNull),
            (''scopes'', JArray [JString ''user:inference'', JString ''user:profile''])])])"
proof -
  have h1: "fault empty_world Mkdir = None" and h2: "fault empty_world WriteFile = None"
    and h3: "fault empty_world ReadFile = None"
    by (simp_all add: empty_world_def no_fault_def)
  have a: "is_finite (Num 1700000100)" and b: "\<not> is_finite PosInf" by simp_all
  show ?thesis
    using h1 h2 h3 a b
      save_load_roundtrip [OF h1 h2 h3, of "Num 1700000100" "''A1''" "''R1''"
        "[''user:inference'', ''user:profile'']"]
      save_load_roundtrip [OF h1 h2 h3, of PosInf "''A1''" "''R1''"
        "[''user:inference'', ''user:profile'']"]
    by (simp add: example_record_def inf_record_def)
qed

text \<open>
  C7. After two calls of \<open>setupOAuthCredentials\<close> the file holds the text of the record
  built from the second input, the same text the second call alone would leave: nothing
  of the first input or of an earlier file remains. The record read back has the second
  input's tokens and exactly the scopes \<^verbatim>\<open>user:inference\<close>, \<^verbatim>\<open>user:profile\<close>; so has every
  record that a call writes.
\<close>

theorem setup_twice_keeps_second:
  assumes "fault w Mkdir = None" and "fault w WriteFile = None" and "fault w ReadFile = None"
  shows "cred_file (snd (setupOAuthCredentials c2 (snd (setupOAuthCredentials c1 w))))
           = Some (ser 0 (credentialsData c2))
     \<and> cred_file (snd (setupOAuthCredentials c2 (snd (setupOAuthCredentials c1 w))))
           = cred_file (snd (setupOAuthCredentials c2 w))
     \<and> writes (snd (setupOAuthCredentials c2 (snd (setupOAuthCredentials c1 w))))
           = writes w @ [ser 0 (credentialsData c1), ser 0 (credentialsData c2)]
     \<and> fst (loadCredentials (snd (setupOAuthCredentials c2 (snd (setupOAuthCredentials c1 w)))))
           = Inr (JObject [(''claudeAiOauth'', JObject
               [(''accessToken'', JString (accessToken c2)),
                (''refreshToken'', JString (refreshToken c2)),
                (''expiresAt'',
                   case parseInt (expiresAt c2) of Num e \<Rightarrow> JNumber (Num e) | _ \<Rightarrow> JNull),
                (''scopes'', JArray [JString ''user:inference'', JString ''user:profile''])])])
     \<and> JSON_parse (ser 0 (credentialsData c1))
           = Some (JObject [(''claudeAiOauth'', JObject
               [(''accessToken'', JString (accessToken c1)),
                (''refreshToken'', JString (refreshToken c1)),
                (''expiresAt'',
                   case parseInt (expiresAt c1) of Num e \<Rightarrow> JNumber (Num e) | _ \<Rightarrow> JNull),
                (''scopes'', JArray [JString ''user:inference'', JString ''user:profile''])])])"
proof -
  let ?w1 = "snd (setupOAuthCredentials c1 w)"
  let ?w2 = "snd (setupOAuthCredentials c2 ?w1)"
  have s1: "?w1 = w\<lparr>dir := True, cred_file := Some (ser 0 (credentialsData c1)),
          writes := writes w @ [ser 0 (credentialsData c1)],
          console := console w @ [''OAuth credentials written to '' @ credentialsPath w]\<rparr>"
    using assms(1,2) by (simp add: setupOAuthCredentials_ok)
  have f1: "fault ?w1 Mkdir = None" "fault ?w1 WriteFile = None" "fault ?w1 ReadFile = None"
    using assms by (simp_all add: s1)
  have s2: "?w2 = ?w1\<lparr>dir := True, cred_file := Some (ser 0 (credentialsData c2)),
          writes := writes ?w1 @ [ser 0 (credentialsData c2)],
          console := console ?w1 @ [''OAuth credentials written to '' @ credentialsPath ?w1]\<rparr>"
    using f1(1,2) by (simp add: setupOAuthCredentials_ok)
  have a: "cred_file ?w2 = Some (ser 0 (credentialsData c2))"
    by (subst s2) simp
  have b: "cred_file (snd (setupOAuthCredentials c2 w)) = Some (ser 0 (credentialsData c2))"
    using assms(1,2) by (simp add: setupOAuthCredentials_ok)
  have c: "writes ?w2 = writes w @ [ser 0 (credentialsData c1), ser 0 (credentialsData c2)]"
    by (subst s2, subst s1) simp
  have r: "fault ?w2 ReadFile = None"
    using f1(3) by (subst s2) simp
  have d: "fst (loadCredentials ?w2) = Inr (JObject [(''claudeAiOauth'', JObject
               [(''accessToken'', JString (accessToken c2)),
                (''refreshToken'', JString (refreshToken c2)),
                (''expiresAt'',
                   case parseInt (expiresAt c2) of Num e \<Rightarrow> JNumber (Num e) | _ \<Rightarrow> JNull),
                (''scopes'', JArray [JString ''user:inference'', JString ''user:profile''])])])"
    using a r JSON_parse_credentialsData [of c2] by (simp add: loadCredentials_eq)
  show ?thesis using a b c d JSON_parse_credentialsData [of c1] by simp
qed

theorem setup_twice_keeps_second_witness:
  "fault empty_world Mkdir = None \<and> fault empty_world WriteFile = None
   \<and> fault empty_world ReadFile = None
   \<and> fst (loadCredentials
        (snd (setupOAuthCredentials second_input (snd (setupOAuthCredentials example_input empty_world)))))
       = Inr (StoredCredentials ''A9'' ''R9'' (Num 1800000000) [''user:inference'', ''user:profile''])"
proof -
  have h1: "fault empty_world Mkdir = None" and h2: "fault empty_world WriteFile = None"
    and h3: "fault empty_world ReadFile = None"
    by (simp_all add: empty_world_def no_fault_def)
  have p: "parseInt (expiresAt second_input) = Num 1800000000"
    by code_simp
  show ?thesis
    using h1 h2 h3 p setup_twice_keeps_second [OF h1 h2 h3, of second_input example_input]
    by (simp add: second_input_def StoredCredentials_def)
qed

text \<open>
  C8. Every operation that writes the record writes the access token and the expiry
  together. \<open>ensureValidToken\<close> either leaves the file as it was, or writes once a record
  whose \<open>accessToken\<close> is the \<open>access_token\<close> of the response just received and whose
  \<open>expiresAt\<close> is \<open>now + expires_in\<close> of that same response. \<open>setupOAuthCredentials\<close>
  either leaves the file as it was, or writes once the record built from its input, with
  the input's token and the input's expiry. No write carries one of the two without the
  other.
\<close>

theorem token_and_expiry_written_together:
  "((cred_file (snd (ensureValidToken w)) = cred_file w
       \<and> writes (snd (ensureValidToken w)) = writes w)
     \<or> (\<exists>c' oauth' rt status body resp a x.
           remote w (refresh_request rt) = Response status body
         \<and> JSON_parse body = Some resp
         \<and> get_prop resp ''access_token'' = Inr a
         \<and> get_prop resp ''expires_in'' = Inr x
         \<and> cred_file (snd (ensureValidToken w)) = Some (ser 0 c')
         \<and> writes (snd (ensureValidToken w)) = writes w @ [ser 0 c']
         \<and> get_prop c' ''claudeAiOauth'' = Inr oauth'
         \<and> get_prop oauth' ''accessToken'' = Inr a
         \<and> get_prop oauth' ''expiresAt'' = Inr (js_add (JNumber (Num (now_seconds w))) x)))
   \<and> ((cred_file (snd (setupOAuthCredentials c v)) = cred_file v
         \<and> writes (snd (setupOAuthCredentials c v)) = writes v)
     \<or> (cred_file (snd (setupOAuthCredentials c v)) = Some (ser 0 (credentialsData c))
         \<and> writes (snd (setupOAuthCredentials c v)) = writes v @ [ser 0 (credentialsData c)]
         \<and> credentialsData c
             = StoredCredentials (accessToken c) (refreshToken c) (parseInt (expiresAt c))
                 [''user:inference'', ''user:profile'']))"
proof -
  let ?unchanged = "cred_file (snd (ensureValidToken w)) = cred_file w
       \<and> writes (snd (ensureValidToken w)) = writes w"
  let ?written = "\<exists>c' oauth' rt status body resp a x.
           remote w (refresh_request rt) = Response status body
         \<and> JSON_parse body = Some resp
         \<and> get_prop resp ''access_token'' = Inr a
         \<and> get_prop resp ''expires_in'' = Inr x
         \<and> cred_file (snd (ensureValidToken w)) = Some (ser 0 c')
         \<and> writes (snd (ensureValidToken w)) = writes w @ [ser 0 c']
         \<and> get_prop c' ''claudeAiOauth'' = Inr oauth'
         \<and> get_prop oauth' ''accessToken'' = Inr a
         \<and> get_prop oauth' ''expiresAt'' = Inr (js_add (JNumber (Num (now_seconds w))) x)"
  obtain cr where l: "loadCredentials w = (Inr cr, w)" using loadCredentials_Inr by blast
  have first: "?unchanged \<or> ?written"
  proof (cases "truthy cr \<and> (\<exists>oauth x. get_prop cr ''claudeAiOauth'' = Inr oauth
      \<and> get_prop oauth ''expiresAt'' = Inr x
      \<and> num_le (js_sub x (JNumber (Num (now_seconds w)))) (Num 300))")
    case False
    then have "snd (ensureValidToken w) = w"
      using l by (auto simp add: ensureValidToken_def Let_def split: sum.splits)
    then show ?thesis by simp
  next
    case True
    then obtain oauth x where t: "truthy cr"
      and g1: "get_prop cr ''claudeAiOauth'' = Inr oauth"
      and g2: "get_prop oauth ''expiresAt'' = Inr x"
      and le: "num_le (js_sub x (JNumber (Num (now_seconds w)))) (Num 300)"
      by blast
    obtain ps qs where ps: "cr = JObject ps" and qs: "oauth = JObject qs"
      using num_le_expiring_object [OF g1 g2 le] by blast
    let ?w1 = "console_log ''Access token expired or expiring soon, refreshing...'' w"
    let ?T = "ensureValidToken_try (JObject ps) (now_seconds w) ?w1"
    have l': "fst (loadCredentials w) = Inr cr" using l by simp
    have e: "ensureValidToken w =
       (case ?T of
          (Inl error, w2) \<Rightarrow> (Inl (Error (''Failed to refresh OAuth token: '' @ message error)), w2)
        | (Inr u, w2) \<Rightarrow> (Inr (), w2))"
      using ensureValidToken_expiring [OF l' t g1 g2 le] ps by simp
    have s: "snd (ensureValidToken w) = snd ?T"
      by (cases ?T) (auto simp add: e split: sum.splits)
    have w1: "cred_file ?w1 = cred_file w" "writes ?w1 = writes w" "remote ?w1 = remote w"
      by (simp_all add: console_log_def)
    have g: "get_prop (JObject ps) ''claudeAiOauth'' = Inr (JObject qs)"
      using g1 ps qs by simp
    show ?thesis
      using ensureValidToken_try_write [OF g, of "now_seconds w" ?w1]
      unfolding s w1 by blast
  qed
  have second: "(cred_file (snd (setupOAuthCredentials c v)) = cred_file v
         \<and> writes (snd (setupOAuthCredentials c v)) = writes v)
     \<or> (cred_file (snd (setupOAuthCredentials c v)) = Some (ser 0 (credentialsData c))
         \<and> writes (snd (setupOAuthCredentials c v)) = writes v @ [ser 0 (credentialsData c)]
         \<and> credentialsData c
             = StoredCredentials (accessToken c) (refreshToken c) (parseInt (expiresAt c))
                 [''user:inference'', ''user:profile''])"
    using setupOAuthCredentials_write [of c v] credentialsData_StoredCredentials [of c]
    by blast
  from first second show ?thesis by blast
qed

theorem token_and_expiry_written_together_witness:
  "((cred_file (snd (ensureValidToken stored_world)) = cred_file stored_world
       \<and> writes (snd (ensureValidToken stored_world)) = writes stored_world)
     \<or> (\<exists>c' oauth' rt status body resp a x.
           remote stored_world (refresh_request rt) = Response status body
         \<and> JSON_parse body = Some resp
         \<and> get_prop resp ''access_token'' = Inr a
         \<and> get_prop resp ''expires_in'' = Inr x
         \<and> cred_file (snd (ensureValidToken stored_world)) = Some (ser 0 c')
         \<and> writes (snd (ensureValidToken stored_world)) = writes stored_world @ [ser 0 c']
         \<and> get_prop c' ''claudeAiOauth'' = Inr oauth'
         \<and> get_prop oauth' ''accessToken'' = Inr a
         \<and> get_prop oauth' ''expiresAt''
             = Inr (js_add (JNumber (Num (now_seconds stored_world))) x)))
   \<and> ((cred_file (snd (setupOAuthCredentials example_input empty_world)) = cred_file empty_world
         \<and> writes (snd (setupOAuthCredentials example_input empty_world)) = writes empty_world)
     \<or> (cred_file (snd (setupOAuthCredentials example_input empty_world))
           = Some (ser 0 (credentialsData example_input))
         \<and> writes (snd (setupOAuthCredentials example_input empty_world))
           = writes empty_world @ [ser 0 (credentialsData example_input)]
         \<and> credentialsData example_input
             = StoredCredentials (accessToken example_input) (refreshToken example_input)
                 (parseInt (expiresAt example_input)) [''user:inference'', ''user:profile'']))"
  by (rule token_and_expiry_written_together)

text \<open>
  C9. Counterexample: the malformed string \<^verbatim>\<open>1900000000abc\<close> is not numeric, yet
  \<^verbatim>\<open>parseInt\<close> reads the number before the letters; the record in the file has a usable
  expiry, and the next \<open>ensureValidToken\<close> finds it valid and sends no request.
\<close>

theorem digit_prefix_expiry_is_usable:
  "parseInt (expiresAt digit_prefix_input) = Num 1900000000
   \<and> ensureValidToken (snd (setupOAuthCredentials digit_prefix_input empty_world))
       = (Inr (), snd (setupOAuthCredentials digit_prefix_input empty_world))
   \<and> requests (snd (ensureValidToken (snd (setupOAuthCredentials digit_prefix_input empty_world))))
       = []"
proof -
  let ?w = "snd (setupOAuthCredentials digit_prefix_input empty_world)"
  let ?oauth = "JObject [(''accessToken'', JString ''A1''), (''refreshToken'', JString ''R1''),
      (''expiresAt'', JNumber (Num 1900000000)),
      (''scopes'', JArray [JString ''user:inference'', JString ''user:profile''])]"
  have p: "parseInt (expiresAt digit_prefix_input) = Num 1900000000"
    by code_simp
  have f: "fault empty_world Mkdir = None" "fault empty_world WriteFile = None"
    by (simp_all add: empty_world_def no_fault_def)
  have w: "?w = empty_world\<lparr>dir := True,
      cred_file := Some (ser 0 (credentialsData digit_prefix_input)),
      writes := writes empty_world @ [ser 0 (credentialsData digit_prefix_input)],
      console := console empty_world
         @ [''OAuth credentials written to '' @ credentialsPath empty_world]\<rparr>"
    using f by (simp add: setupOAuthCredentials_ok)
  have l: "fst (loadCredentials ?w) = Inr (JObject [(''claudeAiOauth'', ?oauth)])"
    using JSON_parse_credentialsData [of digit_prefix_input] p
    by (subst w) (simp add: loadCredentials_eq empty_world_def no_fault_def digit_prefix_input_def)
  have g1: "get_prop (JObject [(''claudeAiOauth'', ?oauth)]) ''claudeAiOauth'' = Inr ?oauth"
    by simp
  have g2: "get_prop ?oauth ''expiresAt'' = Inr (JNumber (Num 1900000000))"
    by simp
  have n: "1900000000 - now_seconds ?w > 300"
    by (subst w) (simp add: now_seconds_def empty_world_def)
  have e: "ensureValidToken ?w = (Inr (), ?w)"
    using l g1 g2 n by (rule ensureValidToken_valid)
  have "requests ?w = []"
    by (subst w) (simp add: empty_world_def)
  with p e show ?thesis by simp
qed

text \<open>
  C9, amended. When \<open>setupOAuthCredentials\<close> is given an \<open>expiresAt\<close> string in which
  \<^verbatim>\<open>parseInt\<close> finds no digit after the white space and the sign, so that it yields
  \<^verbatim>\<open>NaN\<close>, the record in the file has no usable expiry (it is written as \<^verbatim>\<open>null\<close>), and
  every later \<open>ensureValidToken\<close> that reads this file, at any time from the epoch on,
  takes the expiring branch and sends the refresh request.
\<close>

theorem malformed_expiry_always_refreshes:
  assumes "parseInt (expiresAt c) = NaN"
    and "fault w Mkdir = None" and "fault w WriteFile = None"
    and "cred_file w' = cred_file (snd (setupOAuthCredentials c w))"
    and "fault w' ReadFile = None"
    and "0 \<le> clock w'"
  shows "fst (loadCredentials w')
           = Inr (JObject [(''claudeAiOauth'', JObject
               [(''accessToken'', JString (accessToken c)),
                (''refreshToken'', JString (refreshToken c)),
                (''expiresAt'', JNull),
                (''scopes'', JArray [JString ''user:inference'', JString ''user:profile''])])])
     \<and> requests (snd (ensureValidToken w'))
           = requests w' @ [refresh_request (JString (refreshToken c))]"
proof -
  let ?oauth = "JObject
               [(''accessToken'', JString (accessToken c)),
                (''refreshToken'', JString (refreshToken c)),
                (''expiresAt'', JNull),
                (''scopes'', JArray [JString ''user:inference'', JString ''user:profile''])]"
  let ?v = "JObject [(''claudeAiOauth'', ?oauth)]"
  have f: "cred_file w' = Some (ser 0 (credentialsData c))"
    using assms(2,3,4) by (simp add: setupOAuthCredentials_ok)
  have l: "fst (loadCredentials w') = Inr ?v"
    using f assms(1,5) JSON_parse_credentialsData [of c] by (simp add: loadCredentials_eq)
  have t: "truthy ?v" by simp
  have g1: "get_prop ?v ''claudeAiOauth'' = Inr ?oauth" by simp
  have g2: "get_prop ?oauth ''expiresAt'' = Inr JNull" by simp
  have g3: "get_prop ?oauth ''refreshToken'' = Inr (JString (refreshToken c))" by simp
  have "0 \<le> now_seconds w'" using assms(6) by (simp add: now_seconds_def)
  then have le: "num_le (js_sub JNull (JNumber (Num (now_seconds w')))) (Num 300)"
    by (simp add: js_sub_def)
  note unfold = ensureValidToken_expiring [OF l t g1 g2 le]
  let ?w1 = "console_log ''Access token expired or expiring soon, refreshing...'' w'"
  have "requests (snd (ensureValidToken_try ?v (now_seconds w') ?w1))
      = requests ?w1 @ [refresh_request (JString (refreshToken c))]"
    using g1 g3 by (rule ensureValidToken_try_requests)
  then have "requests (snd (ensureValidToken w'))
      = requests w' @ [refresh_request (JString (refreshToken c))]"
    by (cases "ensureValidToken_try ?v (now_seconds w') ?w1")
      (auto simp add: unfold console_log_def split: sum.splits)
  with l show ?thesis by simp
qed

theorem malformed_expiry_always_refreshes_witness:
  "parseInt (expiresAt malformed_input) = NaN
   \<and> fault empty_world Mkdir = None \<and> fault empty_world WriteFile = None
   \<and> fault (snd (setupOAuthCredentials malformed_input empty_world)) ReadFile = None
   \<and> 0 \<le> clock (snd (setupOAuthCredentials malformed_input empty_world))
   \<and> requests (snd (ensureValidToken (snd (setupOAuthCredentials malformed_input empty_world))))
       = requests (snd (setupOAuthCredentials malformed_input empty_world))
           @ [refresh_request (JString ''R1'')]"
proof -
  let ?w = "snd (setupOAuthCredentials malformed_input empty_world)"
  have h1: "parseInt (expiresAt malformed_input) = NaN"
    by code_simp
  have h2: "fault empty_world Mkdir = None" and h3: "fault empty_world WriteFile = None"
    by (simp_all add: empty_world_def no_fault_def)
  have h4: "cred_file ?w = cred_file (snd (setupOAuthCredentials malformed_input empty_world))"
    by simp
  have w: "?w = empty_world\<lparr>dir := True,
      cred_file := Some (ser 0 (credentialsData malformed_input)),
      writes := writes empty_world @ [ser 0 (credentialsData malformed_input)],
      console := console empty_world
         @ [''OAuth credentials written to '' @ credentialsPath empty_world]\<rparr>"
    using h2 h3 by (simp add: setupOAuthCredentials_ok)
  have h5: "fault ?w ReadFile = None"
    by (subst w) (simp add: empty_world_def no_fault_def)
  have h6: "0 \<le> clock ?w"
    by (subst w) (simp add: empty_world_def)
  show ?thesis
    using h1 h2 h3 h5 h6 malformed_expiry_always_refreshes [OF h1 h2 h3 h4 h5 h6]
    by (simp add: malformed_input_def)
qed

text \<open>
  C10. Counterexample: a file holding the valid JSON text \<^verbatim>\<open>null\<close> is read as the absent
  result, and \<open>ensureValidToken\<close> then fails with the "No OAuth credentials found" error,
  not with a type error.
\<close>

theorem valid_json_null_is_absent:
  "JSON_parse ''null'' = Some JNull
   \<and> fst (loadCredentials null_world) = Inr JNull
   \<and> fst (ensureValidToken null_world)
       = Inl (Error ''No OAuth credentials found. Please set up OAuth first.'')"
proof -
  have p: "JSON_parse ''null'' = Some JNull"
    by code_simp
  have l: "loadCredentials null_world = (Inr JNull, null_world)"
    using p by (simp add: loadCredentials_eq null_world_def empty_world_def no_fault_def)
  then show ?thesis using p by (simp add: ensureValidToken_def)
qed

text \<open>
  C10, amended. \<open>loadCredentials\<close> checks no shape: whatever value the text of the file
  denotes is returned as it is. \<open>ensureValidToken\<close> then reports "No OAuth credentials
  found" when that value is falsy (\<^verbatim>\<open>null\<close>, \<^verbatim>\<open>false\<close>, \<^verbatim>\<open>0\<close>, the empty string), and
  fails with a type error of the property access, without a request and without a write,
  when the value is truthy and its \<^verbatim>\<open>claudeAiOauth\<close> is missing or \<^verbatim>\<open>null\<close>.
\<close>

theorem loadCredentials_no_shape_validation:
  assumes "fault w ReadFile = None"
    and "cred_file w = Some t"
    and "JSON_parse t = Some v"
  shows "loadCredentials w = (Inr v, w)
     \<and> (\<not> truthy v \<longrightarrow>
          ensureValidToken w
            = (Inl (Error ''No OAuth credentials found. Please set up OAuth first.''), w))
     \<and> (truthy v \<and> (get_prop v ''claudeAiOauth'' = Inr JUndefined
                       \<or> get_prop v ''claudeAiOauth'' = Inr JNull) \<longrightarrow>
          (\<exists>m. ensureValidToken w = (Inl (TypeError m), w)))"
proof -
  have l: "loadCredentials w = (Inr v, w)"
    using assms by (simp add: loadCredentials_eq)
  then show ?thesis by (auto simp add: ensureValidToken_def)
qed

theorem loadCredentials_no_shape_validation_witness:
  "fault empty_object_world ReadFile = None
   \<and> cred_file empty_object_world = Some ''{}''
   \<and> JSON_parse ''{}'' = Some (JObject [])
   \<and> truthy (JObject [])
   \<and> get_prop (JObject []) ''claudeAiOauth'' = Inr JUndefined
   \<and> loadCredentials empty_object_world = (Inr (JObject []), empty_object_world)
   \<and> (\<exists>m. ensureValidToken empty_object_world = (Inl (TypeError m), empty_object_world))"
proof -
  have h1: "fault empty_object_world ReadFile = None"
    and h2: "cred_file empty_object_world = Some ''{}''"
    by (simp_all add: empty_object_world_def empty_world_def no_fault_def)
  have h3: "JSON_parse ''{}'' = Some (JObject [])"
    by code_simp
  show ?thesis
    using h1 h2 h3 loadCredentials_no_shape_validation [OF h1 h2 h3] by simp
qed

end
